theory Spec2Isabelle
  imports Main "HOL-Library.Word" "HOL-Library.AList" "HOL-Library.Sublist"
begin

section \<open>Bytes, strings and the library the ratchets call\<close>

text \<open>
  Python \<open>bytes\<close> are lists of 8-bit words. A Python \<open>str\<close> is a list of Unicode code
  points. A dictionary is an association list in insertion order, updated with
  \<open>AList.update\<close> (an existing key keeps its place, a new key goes to the end) and
  \<open>AList.delete\<close>, read with \<open>map_of\<close>.
\<close>

type_synonym byte = "8 word"
type_synonym bytes = "byte list"
type_synonym pystr = "nat list"

definition b :: "string \<Rightarrow> bytes" where
  "b s = map of_char s"

definition u :: "string \<Rightarrow> pystr" where
  "u s = map of_char s"

text \<open>
  The functions of PyCryptodome, of the operating system and of the Python runtime that
  the modules call are not code of this repository. They are the fields of a record that
  every operation takes as its first argument:
  \<^item> \<open>HKDF master key_len salt context\<close> is \<open>Crypto.Protocol.KDF.HKDF\<close> with SHA-256;
  \<^item> \<open>gcm_encrypt key nonce aad plaintext\<close> is \<open>AES.new(key, MODE_GCM, nonce)\<close>,
    \<open>update(aad)\<close>, \<open>encrypt_and_digest\<close>, giving ciphertext and tag;
  \<^item> \<open>gcm_decrypt key nonce aad ciphertext tag\<close> is \<open>decrypt_and_verify\<close>, \<open>None\<close> when
    the MAC check fails;
  \<^item> \<open>urandom n w\<close> is \<open>os.urandom(n)\<close> on the state \<open>w\<close> of the outside world;
  \<^item> \<open>utf8_decode_ignore\<close> is \<open>bytes.decode('utf-8', errors='ignore')\<close>;
  \<^item> \<open>py_int\<close> is \<open>int(str)\<close>, \<open>None\<close> where it raises ValueError;
  \<^item> \<open>json_header sender_id n w\<close> is the hidden header of the zero-metadata sender, the
    bytes of \<open>json.dumps({"s": sender_id, "n": n, "t": int(time.time()),
    "i": str(uuid.uuid4())[:8]}).encode('utf-8')\<close>;
  \<^item> \<open>json_header_ok h\<close> holds when \<open>json.loads(h.decode('utf-8'))\<close> returns an object
    with the entries \<open>s\<close>, \<open>n\<close> and \<open>i\<close> that the receiver prints.
\<close>

record 'w lib =
  HKDF :: "bytes \<Rightarrow> nat \<Rightarrow> bytes option \<Rightarrow> bytes \<Rightarrow> bytes"
  gcm_encrypt :: "bytes \<Rightarrow> bytes \<Rightarrow> bytes \<Rightarrow> bytes \<Rightarrow> bytes \<times> bytes"
  gcm_decrypt :: "bytes \<Rightarrow> bytes \<Rightarrow> bytes \<Rightarrow> bytes \<Rightarrow> bytes \<Rightarrow> bytes option"
  urandom :: "nat \<Rightarrow> 'w \<Rightarrow> bytes \<times> 'w"
  utf8_decode_ignore :: "bytes \<Rightarrow> pystr"
  py_int :: "pystr \<Rightarrow> int option"
  json_header :: "pystr \<Rightarrow> int \<Rightarrow> 'w \<Rightarrow> bytes \<times> 'w"
  json_header_ok :: "bytes \<Rightarrow> bool"

text \<open>
  Every \<open>raise\<close> of the modules is a value. The names are the specification's:
  the modules raise ValueError with a message for each of them but \<open>TypeError\<close> and
  \<open>OverflowError\<close>. \<open>AuthFailure\<close> is the MAC check of \<open>decrypt_and_verify\<close>; in the
  zero-metadata receiver \<open>trial_decrypt\<close> turns it into \<open>None\<close> and \<open>_unpack(None)\<close>
  then raises on \<open>None[:4]\<close>. \<open>BadHeader\<close> is any exception of \<open>_unpack\<close> on a header
  that does not parse.
\<close>

datatype error =
    TypeError
  | OverflowError
  | MalformedPacket
  | AuthFailure
  | ReplayOrStale
  | SkipTooLarge
  | SkipStoreOverflow
  | UnknownBeacon
  | PayloadTooLarge
  | BadHeader

text \<open>An argument of a constructor that checks \<open>isinstance(shared_secret, bytes)\<close>.\<close>

datatype pyobj = PyBytes bytes | PyOther

definition AES_KEY_SIZE :: nat where "AES_KEY_SIZE = 32"
definition SALT_SIZE :: nat where "SALT_SIZE = 16"
definition NONCE_SIZE :: nat where "NONCE_SIZE = 12"
definition TAG_SIZE :: nat where "TAG_SIZE = 16"
definition HKDF_INFO_V1 :: bytes where "HKDF_INFO_V1 = b ''AES-GCM-256-KEY''"
definition HKDF_INFO_V2 :: bytes where "HKDF_INFO_V2 = b ''AES-GCM-256-ZERO-METADATA''"
definition RATCHET_INFO_CHAIN :: bytes where "RATCHET_INFO_CHAIN = b ''RATCHET-CHAIN-KEY''"
definition RATCHET_INFO_MSG :: bytes where "RATCHET_INFO_MSG = b ''RATCHET-MESSAGE-KEY''"
definition MESSAGE_LOOKUP_ID :: bytes where "MESSAGE_LOOKUP_ID = b ''MESSAGE-LOOKUP-ID''"
definition ROOT_REFRESH :: bytes where "ROOT_REFRESH = b ''ROOT-REFRESH''"
definition MAX_SKIP_RANGE :: int where "MAX_SKIP_RANGE = 1000"
definition MAX_STORED_KEYS :: int where "MAX_STORED_KEYS = 2000"
definition FIXED_PAYLOAD_SIZE :: nat where "FIXED_PAYLOAD_SIZE = 512"
definition MAX_SKIP :: nat where "MAX_SKIP = 100"
definition MAX_CACHE :: nat where "MAX_CACHE = 50"

text \<open>
  \<open>secure_wipe\<close> zeroes a \<open>bytearray\<close> in place and does nothing on \<open>bytes\<close>. Every
  buffer the modules wipe is either \<open>bytes\<close> or a \<open>bytearray\<close> that is dropped right
  after (the old chain key, the shadow chain), so no value read later changes and the
  model has no step for it.
\<close>

section \<open>backend/quantum_encryption_module.py: the sender with metadata in clear\<close>

record sender_v1 =
  s1_chain_key :: bytes
  s1_step :: int

definition SymmetricRatchet_init :: "pyobj \<Rightarrow> error + sender_v1" where
  "SymmetricRatchet_init shared_secret =
     (case shared_secret of
        PyOther \<Rightarrow> Inl TypeError
      | PyBytes k \<Rightarrow> Inr \<lparr>s1_chain_key = k, s1_step = 0\<rparr>)"

definition SymmetricRatchet_advance :: "'w lib \<Rightarrow> sender_v1 \<Rightarrow> bytes \<times> sender_v1" where
  "SymmetricRatchet_advance env st =
     (let message_key = HKDF env (s1_chain_key st) AES_KEY_SIZE None RATCHET_INFO_MSG;
          new_chain_key = HKDF env (s1_chain_key st) AES_KEY_SIZE None RATCHET_INFO_CHAIN
      in (message_key, \<lparr>s1_chain_key = new_chain_key, s1_step = s1_step st + 1\<rparr>))"

text \<open>\<open>aad\<close> is \<open>Optional[bytes]\<close>; \<open>cipher.update\<close> is called unless it is \<open>None\<close>, and
  an update with no bytes authenticates the same data as no update.\<close>

definition aad_bytes :: "bytes option \<Rightarrow> bytes" where
  "aad_bytes aad = (case aad of None \<Rightarrow> [] | Some a \<Rightarrow> a)"

definition encrypt_message :: "'w lib \<Rightarrow> bytes \<Rightarrow> bytes \<Rightarrow> bytes option \<Rightarrow> 'w \<Rightarrow> bytes \<times> 'w" where
  "encrypt_message env shared_secret plaintext aad w =
     (let (salt, w1) = urandom env SALT_SIZE w;
          aes_key = HKDF env shared_secret AES_KEY_SIZE (Some salt) HKDF_INFO_V1;
          (nonce, w2) = urandom env NONCE_SIZE w1;
          (ciphertext, tag) = gcm_encrypt env aes_key nonce (aad_bytes aad) plaintext
      in (salt @ nonce @ ciphertext @ tag, w2))"

definition SymmetricRatchet_encrypt ::
  "'w lib \<Rightarrow> sender_v1 \<Rightarrow> bytes \<Rightarrow> bytes option \<Rightarrow> 'w \<Rightarrow> bytes \<times> sender_v1 \<times> 'w" where
  "SymmetricRatchet_encrypt env st plaintext aad w =
     (let (message_key, st1) = SymmetricRatchet_advance env st;
          (package, w1) = encrypt_message env message_key plaintext aad w
      in (package, st1, w1))"

section \<open>backend/quantum_decryption_module.py: the receiver with metadata in clear\<close>

definition decrypt_message :: "'w lib \<Rightarrow> bytes \<Rightarrow> bytes \<Rightarrow> bytes option \<Rightarrow> error + bytes" where
  "decrypt_message env shared_secret package aad =
     (if length package < SALT_SIZE + NONCE_SIZE + TAG_SIZE then Inl MalformedPacket
      else
        let salt = take SALT_SIZE package;
            nonce = take NONCE_SIZE (drop SALT_SIZE package);
            ciphertext = drop (SALT_SIZE + NONCE_SIZE) (take (length package - TAG_SIZE) package);
            tag = drop (length package - TAG_SIZE) package;
            aes_key = HKDF env shared_secret AES_KEY_SIZE (Some salt) HKDF_INFO_V1
        in (case gcm_decrypt env aes_key nonce (aad_bytes aad) ciphertext tag of
              None \<Rightarrow> Inl AuthFailure
            | Some plaintext \<Rightarrow> Inr plaintext))"

record receiver_v1 =
  r1_chain_key :: bytes
  r1_step :: int
  r1_skipped_keys :: "(int \<times> bytes) list"

definition SymmetricRatchetReceiver_init :: "bytes \<Rightarrow> receiver_v1" where
  "SymmetricRatchetReceiver_init initial_shared_secret =
     \<lparr>r1_chain_key = initial_shared_secret, r1_step = 0, r1_skipped_keys = []\<rparr>"

definition SymmetricRatchetReceiver_advance :: "'w lib \<Rightarrow> receiver_v1 \<Rightarrow> bytes \<times> receiver_v1" where
  "SymmetricRatchetReceiver_advance env st =
     (let message_key = HKDF env (r1_chain_key st) AES_KEY_SIZE None RATCHET_INFO_MSG;
          new_chain_key = HKDF env (r1_chain_key st) AES_KEY_SIZE None RATCHET_INFO_CHAIN
      in (message_key, st\<lparr>r1_chain_key := new_chain_key, r1_step := r1_step st + 1\<rparr>))"

text \<open>\<open>sub in s\<close> and \<open>s.split(sep)\<close> of Python strings, for a separator that is not
  empty: the pieces between the occurrences of \<open>sep\<close>, found from the left without
  overlap.\<close>

fun py_contains :: "'a list \<Rightarrow> 'a list \<Rightarrow> bool" where
  "py_contains sub [] = (sub = [])"
| "py_contains sub (c # cs) = (prefix sub (c # cs) \<or> py_contains sub cs)"

function py_split_from :: "'a list \<Rightarrow> 'a list \<Rightarrow> 'a list \<Rightarrow> 'a list list" where
  "py_split_from sep acc [] = [rev acc]"
| "py_split_from sep acc (c # cs) =
     (if sep \<noteq> [] \<and> prefix sep (c # cs)
      then rev acc # py_split_from sep [] (drop (length sep) (c # cs))
      else py_split_from sep (c # acc) cs)"
  by pat_completeness auto
termination
  by (relation "measure (\<lambda>(sep, acc, s). length s)") (auto simp: neq_Nil_conv)

definition py_split :: "'a list \<Rightarrow> 'a list \<Rightarrow> 'a list list" where
  "py_split sep s = py_split_from sep [] s"

text \<open>
  The target step of a call: \<open>self._step + 1\<close>, replaced by the number between
  \<open>seq:\<close> and the next \<open>|\<close> when the AAD is not empty, holds \<open>seq:\<close> and \<open>int\<close> accepts
  the text. ValueError and IndexError are caught and leave the default.
\<close>

definition target_step_of :: "'w lib \<Rightarrow> int \<Rightarrow> bytes option \<Rightarrow> int" where
  "target_step_of env cur aad =
     (case aad of
        None \<Rightarrow> cur + 1
      | Some a \<Rightarrow>
          if a = [] then cur + 1
          else
            let aad_str = utf8_decode_ignore env a in
            if py_contains (u ''seq:'') aad_str then
              (case py_split (u ''seq:'') aad_str of
                 _ # after # _ \<Rightarrow>
                   (case py_split (u ''|'') after of
                      parts # _ \<Rightarrow> (case py_int env parts of Some n \<Rightarrow> n | None \<Rightarrow> cur + 1)
                    | [] \<Rightarrow> cur + 1)
               | _ \<Rightarrow> cur + 1)
            else cur + 1)"

text \<open>
  The catch-up loop \<open>while self._step < target_step\<close>. It is entered only under
  \<open>target_step > self._step\<close>, so its body runs at least once; the body's own test
  \<open>if self._step < target_step\<close> is the loop's test on the same state, so a key that is
  saved is followed by another round and a key that is not saved ends the loop and is
  the message key of the call.
\<close>

function catch_up :: "'w lib \<Rightarrow> receiver_v1 \<Rightarrow> int \<Rightarrow> bytes \<times> receiver_v1" where
  "catch_up env st target_step =
     (let (message_key, st1) = SymmetricRatchetReceiver_advance env st in
      if r1_step st1 < target_step
      then catch_up env
             (st1\<lparr>r1_skipped_keys := AList.update (r1_step st1) message_key (r1_skipped_keys st1)\<rparr>)
             target_step
      else (message_key, st1))"
  by pat_completeness auto
termination
  by (relation "measure (\<lambda>(env, st, target_step). nat (target_step - r1_step st))")
     (auto simp: SymmetricRatchetReceiver_advance_def Let_def)

definition SymmetricRatchetReceiver_decrypt ::
  "'w lib \<Rightarrow> receiver_v1 \<Rightarrow> bytes \<Rightarrow> bytes option \<Rightarrow> (error + bytes) \<times> receiver_v1" where
  "SymmetricRatchetReceiver_decrypt env st package aad =
     (let target_step = target_step_of env (r1_step st) aad in
      case map_of (r1_skipped_keys st) target_step of
        Some message_key \<Rightarrow>
          (decrypt_message env message_key package aad,
           st\<lparr>r1_skipped_keys := AList.delete target_step (r1_skipped_keys st)\<rparr>)
      | None \<Rightarrow>
          if target_step > r1_step st then
            let skip_distance = target_step - r1_step st in
            if skip_distance > MAX_SKIP_RANGE then (Inl SkipTooLarge, st)
            else if int (length (r1_skipped_keys st)) + skip_distance > MAX_STORED_KEYS
              then (Inl SkipStoreOverflow, st)
            else
              let (message_key, st1) = catch_up env st target_step
              in (decrypt_message env message_key package aad, st1)
          else (Inl ReplayOrStale, st))"


section \<open>kyber/quantum_encryption_module.py: the zero-metadata sender\<close>

record sender_v2 =
  s2_root_key :: bytes
  s2_chain_key :: bytes
  s2_step :: int
  s2_sender_id :: pystr

definition QuantumDoubleRatchet_init :: "bytes \<Rightarrow> pystr \<Rightarrow> sender_v2" where
  "QuantumDoubleRatchet_init shared_secret sender_id =
     \<lparr>s2_root_key = shared_secret, s2_chain_key = shared_secret, s2_step = 0,
      s2_sender_id = sender_id\<rparr>"

definition QuantumDoubleRatchet_refresh_root :: "'w lib \<Rightarrow> sender_v2 \<Rightarrow> bytes \<Rightarrow> sender_v2" where
  "QuantumDoubleRatchet_refresh_root env st new_entropy =
     (let new_root = HKDF env (s2_root_key st @ new_entropy) AES_KEY_SIZE None ROOT_REFRESH
      in st\<lparr>s2_root_key := new_root, s2_chain_key := new_root, s2_step := 0\<rparr>)"

definition QuantumDoubleRatchet_advance_message_key ::
  "'w lib \<Rightarrow> sender_v2 \<Rightarrow> bytes \<times> sender_v2" where
  "QuantumDoubleRatchet_advance_message_key env st =
     (let msg_key = HKDF env (s2_chain_key st) AES_KEY_SIZE None RATCHET_INFO_MSG;
          new_chain = HKDF env (s2_chain_key st) AES_KEY_SIZE None RATCHET_INFO_CHAIN
      in (msg_key, st\<lparr>s2_chain_key := new_chain, s2_step := s2_step st + 1\<rparr>))"

text \<open>\<open>n.to_bytes(4, 'big')\<close>, which raises OverflowError from \<open>2 ^ 32\<close> on, and
  \<open>int.from_bytes(bs, 'big')\<close>.\<close>

definition to_bytes4 :: "nat \<Rightarrow> error + bytes" where
  "to_bytes4 n =
     (if n < 2 ^ 32
      then Inr [of_nat (n div 2 ^ 24), of_nat (n div 2 ^ 16), of_nat (n div 2 ^ 8), of_nat n]
      else Inl OverflowError)"

definition from_bytes_big :: "bytes \<Rightarrow> nat" where
  "from_bytes_big bs = foldl (\<lambda>acc x. acc * 256 + unat x) 0 bs"

definition QuantumDoubleRatchet_encrypt ::
  "'w lib \<Rightarrow> sender_v2 \<Rightarrow> bytes \<Rightarrow> 'w \<Rightarrow> (error + bytes) \<times> sender_v2 \<times> 'w" where
  "QuantumDoubleRatchet_encrypt env st plaintext w =
     (let (msg_key, st1) = QuantumDoubleRatchet_advance_message_key env st;
          (header_bytes, w1) = json_header env (s2_sender_id st1) (s2_step st1) w
      in case to_bytes4 (length plaintext) of
           Inl e \<Rightarrow> (Inl e, st1, w1)
         | Inr msg_len \<Rightarrow>
             (case to_bytes4 (length header_bytes) of
                Inl e \<Rightarrow> (Inl e, st1, w1)
              | Inr hdr_len \<Rightarrow>
                  let content = hdr_len @ header_bytes @ msg_len @ plaintext in
                  if length content > FIXED_PAYLOAD_SIZE then (Inl PayloadTooLarge, st1, w1)
                  else
                    let padding_needed = FIXED_PAYLOAD_SIZE - length content;
                        (padding, w2) = urandom env padding_needed w1;
                        content' = content @ padding;
                        aes_key = HKDF env msg_key AES_KEY_SIZE None HKDF_INFO_V2;
                        lookup_id = HKDF env msg_key 16 None MESSAGE_LOOKUP_ID;
                        (nonce, w3) = urandom env NONCE_SIZE w2;
                        (ciphertext, tag) = gcm_encrypt env aes_key nonce [] content'
                    in (Inr (lookup_id @ nonce @ tag @ ciphertext), st1, w3)))"

section \<open>kyber/quantum_decryption_module.py: the zero-metadata receiver\<close>

definition trial_decrypt :: "'w lib \<Rightarrow> bytes \<Rightarrow> bytes \<Rightarrow> bytes option" where
  "trial_decrypt env msg_key package =
     (let nonce = take NONCE_SIZE package;
          tag = take TAG_SIZE (drop NONCE_SIZE package);
          ciphertext = drop (NONCE_SIZE + TAG_SIZE) package;
          aes_key = HKDF env msg_key AES_KEY_SIZE None HKDF_INFO_V2
      in gcm_decrypt env aes_key nonce [] ciphertext tag)"

record receiver_v2 =
  r2_root_key :: bytes
  r2_chain_key :: bytes
  r2_step :: int
  r2_skipped_keys :: "(int \<times> bytes) list"
  r2_lookup_cache :: "(bytes \<times> bytes \<times> int) list"

text \<open>The two loops of \<open>_refresh_lookup_cache\<close>: over the skipped keys in the
  dictionary's order, and \<open>MAX_SKIP\<close> rounds on a shadow copy of the chain.\<close>

fun index_skipped ::
  "'w lib \<Rightarrow> (int \<times> bytes) list \<Rightarrow> (bytes \<times> bytes \<times> int) list \<Rightarrow> (bytes \<times> bytes \<times> int) list" where
  "index_skipped env [] cache = cache"
| "index_skipped env ((seq, key) # rest) cache =
     (let lid = HKDF env key 16 None MESSAGE_LOOKUP_ID
      in index_skipped env rest (AList.update lid (key, seq) cache))"

fun index_lookahead ::
  "'w lib \<Rightarrow> nat \<Rightarrow> bytes \<Rightarrow> int \<Rightarrow> (bytes \<times> bytes \<times> int) list \<Rightarrow> (bytes \<times> bytes \<times> int) list" where
  "index_lookahead env 0 temp_chain temp_step cache = cache"
| "index_lookahead env (Suc i) temp_chain temp_step cache =
     (let candidate_key = HKDF env temp_chain AES_KEY_SIZE None RATCHET_INFO_MSG;
          lid = HKDF env candidate_key 16 None MESSAGE_LOOKUP_ID;
          cache1 = AList.update lid (candidate_key, temp_step + 1) cache;
          next_chain = HKDF env temp_chain AES_KEY_SIZE None RATCHET_INFO_CHAIN
      in index_lookahead env i next_chain (temp_step + 1) cache1)"

definition refresh_lookup_cache :: "'w lib \<Rightarrow> receiver_v2 \<Rightarrow> receiver_v2" where
  "refresh_lookup_cache env st =
     st\<lparr>r2_lookup_cache :=
          index_lookahead env MAX_SKIP (r2_chain_key st) (r2_step st)
            (index_skipped env (r2_skipped_keys st) [])\<rparr>"

definition QuantumDoubleRatchetReceiver_init :: "'w lib \<Rightarrow> bytes \<Rightarrow> receiver_v2" where
  "QuantumDoubleRatchetReceiver_init env initial_shared_secret =
     refresh_lookup_cache env
       \<lparr>r2_root_key = initial_shared_secret, r2_chain_key = initial_shared_secret,
        r2_step = 0, r2_skipped_keys = [], r2_lookup_cache = []\<rparr>"

definition QuantumDoubleRatchetReceiver_refresh_root ::
  "'w lib \<Rightarrow> receiver_v2 \<Rightarrow> bytes \<Rightarrow> receiver_v2" where
  "QuantumDoubleRatchetReceiver_refresh_root env st new_entropy =
     (let new_root = HKDF env (r2_root_key st @ new_entropy) AES_KEY_SIZE None ROOT_REFRESH
      in refresh_lookup_cache env
           (st\<lparr>r2_root_key := new_root, r2_chain_key := new_root, r2_step := 0,
               r2_skipped_keys := []\<rparr>))"

definition advance_chain :: "'w lib \<Rightarrow> receiver_v2 \<Rightarrow> bytes \<times> receiver_v2" where
  "advance_chain env st =
     (let msg_key = HKDF env (r2_chain_key st) AES_KEY_SIZE None RATCHET_INFO_MSG;
          new_chain = HKDF env (r2_chain_key st) AES_KEY_SIZE None RATCHET_INFO_CHAIN
      in (msg_key, st\<lparr>r2_chain_key := new_chain, r2_step := r2_step st + 1\<rparr>))"

text \<open>\<open>_unpack\<close>, on the result of \<open>trial_decrypt\<close>. Slices past the end are short or
  empty, as in Python.\<close>

definition unpack :: "'w lib \<Rightarrow> bytes option \<Rightarrow> error + bytes" where
  "unpack env decrypted_payload =
     (case decrypted_payload of
        None \<Rightarrow> Inl AuthFailure
      | Some p \<Rightarrow>
          let h_len = from_bytes_big (take 4 p);
              header_bytes = take h_len (drop 4 p)
          in if \<not> json_header_ok env header_bytes then Inl BadHeader
             else
               let m_start = 4 + h_len;
                   m_len = from_bytes_big (take 4 (drop m_start p));
                   message = take m_len (drop (m_start + 4) p)
               in Inr message)"

text \<open>The loop \<open>while self._step < match_seq\<close> of \<open>decrypt\<close>, with the \<open>raise\<close> that
  follows it.\<close>

function advance_until ::
  "'w lib \<Rightarrow> receiver_v2 \<Rightarrow> int \<Rightarrow> bytes \<Rightarrow> (error + bytes) \<times> receiver_v2" where
  "advance_until env st match_seq crypto_blob =
     (if r2_step st < match_seq then
        let (key, st1) = advance_chain env st in
        if r2_step st1 = match_seq then
          let res = trial_decrypt env key crypto_blob;
              st2 = refresh_lookup_cache env st1
          in (unpack env res, st2)
        else
          advance_until env
            (st1\<lparr>r2_skipped_keys := AList.update (r2_step st1) key (r2_skipped_keys st1)\<rparr>)
            match_seq crypto_blob
      else (Inl UnknownBeacon, st))"
  by pat_completeness auto
termination
  by (relation "measure (\<lambda>(env, st, match_seq, crypto_blob). nat (match_seq - r2_step st))")
     (auto simp: advance_chain_def Let_def)

definition QuantumDoubleRatchetReceiver_decrypt ::
  "'w lib \<Rightarrow> receiver_v2 \<Rightarrow> bytes \<Rightarrow> (error + bytes) \<times> receiver_v2" where
  "QuantumDoubleRatchetReceiver_decrypt env st package =
     (if length package < 16 + NONCE_SIZE + TAG_SIZE then (Inl MalformedPacket, st)
      else
        let beacon = take 16 package;
            crypto_blob = drop 16 package
        in case map_of (r2_lookup_cache st) beacon of
             None \<Rightarrow> (Inl UnknownBeacon, st)
           | Some (match_key, match_seq) \<Rightarrow>
               if map_of (r2_skipped_keys st) match_seq \<noteq> None then
                 let st1 = st\<lparr>r2_skipped_keys := AList.delete match_seq (r2_skipped_keys st)\<rparr>;
                     res = trial_decrypt env match_key crypto_blob;
                     st2 = refresh_lookup_cache env st1
                 in (unpack env res, st2)
               else advance_until env st match_seq crypto_blob)"

section \<open>Runs, the key chain and what is assumed of the library\<close>

text \<open>A sender encrypting a list of messages in order, and a receiver decrypting a list
  of packets in order; each gives the results of the calls and the final state.\<close>

fun v1_send_all ::
  "'w lib \<Rightarrow> sender_v1 \<Rightarrow> 'w \<Rightarrow> (bytes \<times> bytes option) list \<Rightarrow> bytes list \<times> sender_v1 \<times> 'w" where
  "v1_send_all env st w [] = ([], st, w)"
| "v1_send_all env st w ((plaintext, aad) # ms) =
     (let (package, st1, w1) = SymmetricRatchet_encrypt env st plaintext aad w;
          (packages, st2, w2) = v1_send_all env st1 w1 ms
      in (package # packages, st2, w2))"

fun v1_recv_all ::
  "'w lib \<Rightarrow> receiver_v1 \<Rightarrow> (bytes \<times> bytes option) list \<Rightarrow> (error + bytes) list \<times> receiver_v1" where
  "v1_recv_all env st [] = ([], st)"
| "v1_recv_all env st ((package, aad) # ps) =
     (let (r, st1) = SymmetricRatchetReceiver_decrypt env st package aad;
          (rs, st2) = v1_recv_all env st1 ps
      in (r # rs, st2))"

fun v2_send_all ::
  "'w lib \<Rightarrow> sender_v2 \<Rightarrow> 'w \<Rightarrow> bytes list \<Rightarrow> (error + bytes) list \<times> sender_v2 \<times> 'w" where
  "v2_send_all env st w [] = ([], st, w)"
| "v2_send_all env st w (plaintext # ms) =
     (let (r, st1, w1) = QuantumDoubleRatchet_encrypt env st plaintext w;
          (rs, st2, w2) = v2_send_all env st1 w1 ms
      in (r # rs, st2, w2))"

fun v2_recv_all ::
  "'w lib \<Rightarrow> receiver_v2 \<Rightarrow> bytes list \<Rightarrow> (error + bytes) list \<times> receiver_v2" where
  "v2_recv_all env st [] = ([], st)"
| "v2_recv_all env st (package # ps) =
     (let (r, st1) = QuantumDoubleRatchetReceiver_decrypt env st package;
          (rs, st2) = v2_recv_all env st1 ps
      in (r # rs, st2))"

text \<open>The step counters a receiver shows before the first call and after each call.\<close>

fun v1_steps :: "'w lib \<Rightarrow> receiver_v1 \<Rightarrow> (bytes \<times> bytes option) list \<Rightarrow> int list" where
  "v1_steps env st [] = [r1_step st]"
| "v1_steps env st ((package, aad) # ps) =
     r1_step st # v1_steps env (snd (SymmetricRatchetReceiver_decrypt env st package aad)) ps"

fun v2_steps :: "'w lib \<Rightarrow> receiver_v2 \<Rightarrow> bytes list \<Rightarrow> int list" where
  "v2_steps env st [] = [r2_step st]"
| "v2_steps env st (package # ps) =
     r2_step st # v2_steps env (snd (QuantumDoubleRatchetReceiver_decrypt env st package)) ps"

text \<open>The chain key after \<open>n\<close> advances from \<open>k\<close>, the message key of step \<open>n\<close> (from 1)
  and its beacon.\<close>

fun chain_key_at :: "'w lib \<Rightarrow> bytes \<Rightarrow> nat \<Rightarrow> bytes" where
  "chain_key_at env k 0 = k"
| "chain_key_at env k (Suc n) = HKDF env (chain_key_at env k n) AES_KEY_SIZE None RATCHET_INFO_CHAIN"

definition message_key_at :: "'w lib \<Rightarrow> bytes \<Rightarrow> nat \<Rightarrow> bytes" where
  "message_key_at env k n = HKDF env (chain_key_at env k (n - 1)) AES_KEY_SIZE None RATCHET_INFO_MSG"

definition beacon_of :: "'w lib \<Rightarrow> bytes \<Rightarrow> bytes" where
  "beacon_of env key = HKDF env key 16 None MESSAGE_LOOKUP_ID"

definition beacon_at :: "'w lib \<Rightarrow> bytes \<Rightarrow> nat \<Rightarrow> bytes" where
  "beacon_at env k n = beacon_of env (message_key_at env k n)"

text \<open>What the theorems assume of the library: HKDF returns \<open>key_len\<close> bytes, \<open>urandom\<close>
  returns \<open>n\<close> bytes, GCM returns a tag of 16 bytes and a ciphertext as long as the
  plaintext and decrypts what it encrypted, and the header the sender writes parses.\<close>

definition hkdf_len :: "'w lib \<Rightarrow> bool" where
  "hkdf_len env = (\<forall>m n s c. length (HKDF env m n s c) = n)"

definition urandom_len :: "'w lib \<Rightarrow> bool" where
  "urandom_len env = (\<forall>n w. length (fst (urandom env n w)) = n)"

definition gcm_correct :: "'w lib \<Rightarrow> bool" where
  "gcm_correct env =
     (\<forall>k n a p. length (snd (gcm_encrypt env k n a p)) = TAG_SIZE \<and>
        gcm_decrypt env k n a (fst (gcm_encrypt env k n a p)) (snd (gcm_encrypt env k n a p)) = Some p)"

definition gcm_len :: "'w lib \<Rightarrow> bool" where
  "gcm_len env = (\<forall>k n a p. length (fst (gcm_encrypt env k n a p)) = length p)"

definition header_parses :: "'w lib \<Rightarrow> bool" where
  "header_parses env = (\<forall>sid n w. json_header_ok env (fst (json_header env sid n w)))"

text \<open>The invariant of the receiver with metadata in clear: the skipped keys are a
  dictionary (no key twice) of fewer than \<open>MAX_STORED_KEYS\<close> steps, each from 1 up to
  the current step.\<close>

definition r1_inv :: "receiver_v1 \<Rightarrow> bool" where
  "r1_inv st =
     (distinct (map fst (r1_skipped_keys st)) \<and> 0 \<le> r1_step st \<and>
      int (length (r1_skipped_keys st)) < MAX_STORED_KEYS \<and>
      list_all (\<lambda>j. 1 \<le> j \<and> j \<le> r1_step st) (map fst (r1_skipped_keys st)))"


text \<open>The AADs of messages sent in order from step \<open>s\<close> name their own step: the target
  step the receiver reads from the \<open>i\<close>-th of them, at step \<open>s + i - 1\<close>, is \<open>s + i\<close>.
  An AAD of \<open>None\<close>, an AAD without \<open>seq:\<close> and an AAD with the right \<open>seq:\<close> do.\<close>

fun aads_in_step :: "'w lib \<Rightarrow> int \<Rightarrow> bytes option list \<Rightarrow> bool" where
  "aads_in_step env s [] = True"
| "aads_in_step env s (aad # aads) =
     (target_step_of env s aad = s + 1 \<and> aads_in_step env (s + 1) aads)"


section \<open>A small library for closed examples\<close>

text \<open>
  A library that is easy to compute with, for the closed examples. It is not
  cryptography: HKDF pads or cuts its input to \<open>key_len\<close> bytes, after adding one to the
  first byte for the chain context; GCM leaves the plaintext as it is and takes the
  first 16 bytes of the padded key as tag; \<open>urandom\<close> returns zeros. The decoder keeps
  the ASCII bytes, \<open>int\<close> reads plain decimal digits (as Python does on such input),
  and the header is the text \<open>json.dumps\<close> writes for an ASCII sender name at time 0.
\<close>

definition toy_bump :: "bytes \<Rightarrow> bytes" where
  "toy_bump m = (case m of [] \<Rightarrow> [1] | x # xs \<Rightarrow> (x + 1) # xs)"

definition toy_HKDF :: "bytes \<Rightarrow> nat \<Rightarrow> bytes option \<Rightarrow> bytes \<Rightarrow> bytes" where
  "toy_HKDF master key_len salt context =
     take key_len ((if context = RATCHET_INFO_CHAIN then toy_bump master else master)
                   @ replicate key_len 0)"

definition toy_tag :: "bytes \<Rightarrow> bytes" where
  "toy_tag key = take 16 (key @ replicate 16 0)"

definition toy_gcm_encrypt :: "bytes \<Rightarrow> bytes \<Rightarrow> bytes \<Rightarrow> bytes \<Rightarrow> bytes \<times> bytes" where
  "toy_gcm_encrypt key nonce aad plaintext = (plaintext, toy_tag key)"

definition toy_gcm_decrypt :: "bytes \<Rightarrow> bytes \<Rightarrow> bytes \<Rightarrow> bytes \<Rightarrow> bytes \<Rightarrow> bytes option" where
  "toy_gcm_decrypt key nonce aad ciphertext tag =
     (if tag = toy_tag key then Some ciphertext else None)"

definition toy_urandom :: "nat \<Rightarrow> unit \<Rightarrow> bytes \<times> unit" where
  "toy_urandom n w = (replicate n 0, w)"

definition toy_decode :: "bytes \<Rightarrow> pystr" where
  "toy_decode bs = map unat (filter (\<lambda>x. x < 128) bs)"

fun toy_decimal :: "int \<Rightarrow> pystr \<Rightarrow> int" where
  "toy_decimal acc [] = acc"
| "toy_decimal acc (c # cs) = toy_decimal (10 * acc + (int c - 48)) cs"

definition toy_int :: "pystr \<Rightarrow> int option" where
  "toy_int s =
     (if s \<noteq> [] \<and> list_all (\<lambda>c. 48 \<le> c \<and> c \<le> 57) s then Some (toy_decimal 0 s) else None)"

function toy_digits :: "nat \<Rightarrow> bytes" where
  "toy_digits n = (if n < 10 then [of_nat (48 + n)] else toy_digits (n div 10) @ [of_nat (48 + n mod 10)])"
  by pat_completeness auto
termination
  by (relation "measure id") auto

declare toy_digits.simps [simp del]

definition toy_json_header :: "pystr \<Rightarrow> int \<Rightarrow> unit \<Rightarrow> bytes \<times> unit" where
  "toy_json_header sender_id n w =
     (b ''{'' @ [34] @ b ''s'' @ [34] @ b '': '' @ [34] @ map of_nat sender_id @ [34]
      @ b '', '' @ [34] @ b ''n'' @ [34] @ b '': '' @ toy_digits (nat n)
      @ b '', '' @ [34] @ b ''t'' @ [34] @ b '': 0, '' @ [34] @ b ''i'' @ [34] @ b '': ''
      @ [34] @ b ''00000000'' @ [34] @ b ''}'', w)"

definition toy_header_ok :: "bytes \<Rightarrow> bool" where
  "toy_header_ok h = (h \<noteq> [] \<and> hd h = 123 \<and> last h = 125)"

definition toy :: "unit lib" where
  "toy = \<lparr>HKDF = toy_HKDF, gcm_encrypt = toy_gcm_encrypt, gcm_decrypt = toy_gcm_decrypt,
          urandom = toy_urandom, utf8_decode_ignore = toy_decode, py_int = toy_int,
          json_header = toy_json_header, json_header_ok = toy_header_ok\<rparr>"

definition zeros32 :: bytes where
  "zeros32 = replicate 32 0"

text \<open>A receiver at step 2000 that holds 1998 skipped keys.\<close>

definition crowded_receiver :: receiver_v1 where
  "crowded_receiver =
     \<lparr>r1_chain_key = zeros32, r1_step = 2000,
      r1_skipped_keys = map (\<lambda>i. (int i, zeros32)) [1..<1999]\<rparr>"


definition receiver_at_1 :: receiver_v1 where
  "receiver_at_1 = \<lparr>r1_chain_key = 1 # replicate 31 0, r1_step = 1, r1_skipped_keys = []\<rparr>"

section \<open>The lookup cache and the real chain of the zero-metadata receiver\<close>

text \<open>The entries \<open>_refresh_lookup_cache\<close> writes, in the order it writes them: one for
  each skipped key, then one for each of the \<open>MAX_SKIP\<close> rounds on the shadow chain. A
  later entry with the same identifier replaces the value of an earlier one.\<close>

definition skipped_entries :: "'w lib \<Rightarrow> (int \<times> bytes) list \<Rightarrow> (bytes \<times> bytes \<times> int) list" where
  "skipped_entries env sk = map (\<lambda>(seq, key). (beacon_of env key, (key, seq))) sk"

fun lookahead_entries :: "'w lib \<Rightarrow> nat \<Rightarrow> bytes \<Rightarrow> int \<Rightarrow> (bytes \<times> bytes \<times> int) list" where
  "lookahead_entries env 0 temp_chain temp_step = []"
| "lookahead_entries env (Suc i) temp_chain temp_step =
     (let candidate_key = HKDF env temp_chain AES_KEY_SIZE None RATCHET_INFO_MSG
      in (beacon_of env candidate_key, (candidate_key, temp_step + 1)) #
         lookahead_entries env i (HKDF env temp_chain AES_KEY_SIZE None RATCHET_INFO_CHAIN)
           (temp_step + 1))"

text \<open>The lookup cache of a state is the one \<open>_refresh_lookup_cache\<close> computes from it.
  The constructor, \<open>refresh_root\<close> and \<open>decrypt\<close> leave the receiver in such a state.\<close>

definition cache_fresh :: "'w lib \<Rightarrow> receiver_v2 \<Rightarrow> bool" where
  "cache_fresh env st = (r2_lookup_cache st = r2_lookup_cache (refresh_lookup_cache env st))"

text \<open>The message key that the call number \<open>n\<close> (from 0) of \<open>_advance_chain\<close> returns,
  on the real chain from the state \<open>st\<close>: the message key of step \<open>r2_step st + n + 1\<close>.\<close>

fun real_key :: "'w lib \<Rightarrow> receiver_v2 \<Rightarrow> nat \<Rightarrow> bytes" where
  "real_key env st 0 = fst (advance_chain env st)"
| "real_key env st (Suc n) = real_key env (snd (advance_chain env st)) n"

text \<open>A sequence of calls on the zero-metadata receiver, and the state after it.\<close>

datatype call_v2 = Decrypt bytes | RefreshRoot bytes

fun v2_run :: "'w lib \<Rightarrow> receiver_v2 \<Rightarrow> call_v2 list \<Rightarrow> receiver_v2" where
  "v2_run env st [] = st"
| "v2_run env st (Decrypt package # calls) =
     v2_run env (snd (QuantumDoubleRatchetReceiver_decrypt env st package)) calls"
| "v2_run env st (RefreshRoot new_entropy # calls) =
     v2_run env (QuantumDoubleRatchetReceiver_refresh_root env st new_entropy) calls"

text \<open>An assumption on HKDF: the beacons of the steps 1 to \<open>n\<close> on the chain of \<open>k\<close> are
  pairwise different.\<close>

definition beacons_distinct :: "'w lib \<Rightarrow> bytes \<Rightarrow> nat \<Rightarrow> bool" where
  "beacons_distinct env k n =
     (\<forall>i j. 1 \<le> i \<and> i < j \<and> j \<le> n \<longrightarrow> beacon_at env k i \<noteq> beacon_at env k j)"

text \<open>The zero-metadata receiver follows the chain of the secret \<open>k\<close>: its chain key is
  the chain key of its step, its skipped keys are a dictionary of message keys of steps
  from 1 to its step, and its lookup cache is fresh.\<close>

definition r2_on_chain :: "'w lib \<Rightarrow> bytes \<Rightarrow> receiver_v2 \<Rightarrow> bool" where
  "r2_on_chain env k st =
     (0 \<le> r2_step st \<and> r2_chain_key st = chain_key_at env k (nat (r2_step st)) \<and>
      distinct (map fst (r2_skipped_keys st)) \<and>
      list_all (\<lambda>(j, key). 1 \<le> j \<and> j \<le> r2_step st \<and> key = message_key_at env k (nat j))
        (r2_skipped_keys st) \<and>
      cache_fresh env st)"

text \<open>A package of the sender for step \<open>j\<close> of the chain of \<open>k\<close> that carries \<open>m\<close>.\<close>

definition honest_v2 :: "'w lib \<Rightarrow> bytes \<Rightarrow> nat \<Rightarrow> bytes \<Rightarrow> bytes \<Rightarrow> bool" where
  "honest_v2 env k j m package =
     (16 + NONCE_SIZE + TAG_SIZE \<le> length package \<and> take 16 package = beacon_at env k j \<and>
      unpack env (trial_decrypt env (message_key_at env k j) (drop 16 package)) = Inr m)"

text \<open>The steps \<open>js\<close>, taken in this order from step \<open>s\<close>, each lie at most \<open>MAX_SKIP\<close>
  ahead of the highest step taken before.\<close>

fun in_window :: "int \<Rightarrow> nat list \<Rightarrow> bool" where
  "in_window s [] = True"
| "in_window s (j # js) = (int j \<le> s + int MAX_SKIP \<and> in_window (max s (int j)) js)"

declare catch_up.simps [simp del]
declare advance_until.simps [simp del]

lemma catch_up_step: "r1_step (snd (catch_up env st t)) = max (r1_step st + 1) t"
proof (induction env st t rule: catch_up.induct)
  case (1 env st t)
  obtain mk st1 where adv: "SymmetricRatchetReceiver_advance env st = (mk, st1)"
    by (cases "SymmetricRatchetReceiver_advance env st")
  then have s1: "r1_step st1 = r1_step st + 1"
    by (auto simp: SymmetricRatchetReceiver_advance_def Let_def)
  show ?case
  proof (cases "r1_step st1 < t")
    case True
    with "1.IH" [OF refl adv [symmetric] True] s1 adv show ?thesis
      by (subst catch_up.simps) simp
  next
    case False
    with s1 adv show ?thesis
      by (subst catch_up.simps) simp
  qed
qed

lemma v1_decrypt_step_mono:
  "r1_step st \<le> r1_step (snd (SymmetricRatchetReceiver_decrypt env st package aad))"
  by (simp add: SymmetricRatchetReceiver_decrypt_def Let_def catch_up_step
      split: option.splits prod.splits)
     (metis catch_up_step max.cobounded1 snd_conv add_increasing2 zero_le_one order_refl max.coboundedI1)

lemma refresh_step [simp]: "r2_step (refresh_lookup_cache env st) = r2_step st"
  by (simp add: refresh_lookup_cache_def)

lemma advance_until_step_mono: "r2_step st \<le> r2_step (snd (advance_until env st m blob))"
proof (induction env st m blob rule: advance_until.induct)
  case (1 env st m blob)
  obtain key st1 where adv: "advance_chain env st = (key, st1)"
    by (cases "advance_chain env st")
  then have s1: "r2_step st1 = r2_step st + 1"
    by (auto simp: advance_chain_def Let_def)
  show ?case
  proof (cases "r2_step st < m")
    case False
    then show ?thesis by (subst advance_until.simps) simp
  next
    case True
    note lt = this
    show ?thesis
    proof (cases "r2_step st1 = m")
      case True
      with lt adv s1 show ?thesis
        by (subst advance_until.simps) (simp add: Let_def)
    next
      case False
      with lt "1.IH" [OF lt refl adv [symmetric] False] adv s1 show ?thesis
        by (subst advance_until.simps) (simp add: Let_def)
    qed
  qed
qed

lemma v2_decrypt_step_mono:
  "r2_step st \<le> r2_step (snd (QuantumDoubleRatchetReceiver_decrypt env st package))"
  by (simp add: QuantumDoubleRatchetReceiver_decrypt_def Let_def advance_until_step_mono
      split: option.splits prod.splits)

lemma v1_steps_sorted: "sorted (v1_steps env st calls)"
proof (induction calls arbitrary: st)
  case Nil
  show ?case by simp
next
  case (Cons c calls)
  obtain package aad where c: "c = (package, aad)" by (cases c)
  let ?st1 = "snd (SymmetricRatchetReceiver_decrypt env st package aad)"
  have hd: "r1_step st \<le> r1_step ?st1" by (rule v1_decrypt_step_mono)
  have "\<forall>x \<in> set (v1_steps env ?st1 calls). r1_step ?st1 \<le> x"
    using Cons.IH [of ?st1] by (cases calls) auto
  with hd Cons.IH [of ?st1] show ?case by (auto simp: c)
qed

lemma v2_steps_sorted: "sorted (v2_steps env st calls)"
proof (induction calls arbitrary: st)
  case Nil
  show ?case by simp
next
  case (Cons package calls)
  let ?st1 = "snd (QuantumDoubleRatchetReceiver_decrypt env st package)"
  have hd: "r2_step st \<le> r2_step ?st1" by (rule v2_decrypt_step_mono)
  have "\<forall>x \<in> set (v2_steps env ?st1 calls). r2_step ?st1 \<le> x"
    using Cons.IH [of ?st1] by (cases calls) auto
  with hd Cons.IH [of ?st1] show ?case by auto
qed

lemma update_fresh_length:
  "k \<notin> fst ` set al \<Longrightarrow> length (AList.update k v al) = Suc (length al)"
  by (induction al) auto

lemma update_length_le: "length (AList.update k v al) \<le> Suc (length al)"
  by (induction al) auto

lemma delete_length_le: "length (AList.delete k al) \<le> length al"
  by (simp add: AList.delete_eq)

lemma r1_inv_init: "r1_inv (SymmetricRatchetReceiver_init k)"
  by (simp add: r1_inv_def SymmetricRatchetReceiver_init_def MAX_STORED_KEYS_def)

text \<open>The invariant without the bound on the number of keys, for the catch-up loop.\<close>

lemma catch_up_keys:
  assumes "distinct (map fst (r1_skipped_keys st))"
    and "\<forall>j \<in> fst ` set (r1_skipped_keys st). 1 \<le> j \<and> j \<le> r1_step st"
    and "0 \<le> r1_step st"
  shows "distinct (map fst (r1_skipped_keys (snd (catch_up env st t)))) \<and>
         (\<forall>j \<in> fst ` set (r1_skipped_keys (snd (catch_up env st t))).
            1 \<le> j \<and> j < r1_step (snd (catch_up env st t))) \<and>
         int (length (r1_skipped_keys (snd (catch_up env st t)))) =
           int (length (r1_skipped_keys st)) + (max (r1_step st + 1) t - r1_step st - 1)"
  using assms
proof (induction env st t rule: catch_up.induct)
  case (1 env st t)
  obtain mk st1 where adv: "SymmetricRatchetReceiver_advance env st = (mk, st1)"
    by (cases "SymmetricRatchetReceiver_advance env st")
  then have s1: "r1_step st1 = r1_step st + 1" "r1_skipped_keys st1 = r1_skipped_keys st"
    by (auto simp: SymmetricRatchetReceiver_advance_def Let_def)
  show ?case
  proof (cases "r1_step st1 < t")
    case False
    with s1 adv "1.prems" show ?thesis
      by (subst (1 2 3 4) catch_up.simps) (auto simp: Let_def)
  next
    case True
    let ?st2 = "st1\<lparr>r1_skipped_keys := AList.update (r1_step st1) mk (r1_skipped_keys st1)\<rparr>"
    have fresh: "r1_step st1 \<notin> fst ` set (r1_skipped_keys st1)"
      using "1.prems" s1 by auto
    have p1: "distinct (map fst (r1_skipped_keys ?st2))"
      using "1.prems" s1 by (simp add: distinct_update)
    have p2: "\<forall>j \<in> fst ` set (r1_skipped_keys ?st2). 1 \<le> j \<and> j \<le> r1_step ?st2"
      using "1.prems" s1 by (auto simp: dom_update)
    have p3: "0 \<le> r1_step ?st2" using "1.prems" s1 by simp
    have len: "length (r1_skipped_keys ?st2) = Suc (length (r1_skipped_keys st))"
      using fresh s1 by (simp add: update_fresh_length)
    have eq: "catch_up env st t = catch_up env ?st2 t"
      using adv True by (subst catch_up.simps) simp
    from "1.IH" [OF refl adv [symmetric] True p1 p2 p3] len s1 True show ?thesis
      unfolding eq by auto
  qed
qed

lemma v1_decrypt_inv:
  assumes "r1_inv st"
  shows "r1_inv (snd (SymmetricRatchetReceiver_decrypt env st package aad))"
proof -
  let ?t = "target_step_of env (r1_step st) aad"
  have d: "distinct (map fst (r1_skipped_keys st))"
    and k: "\<forall>j \<in> fst ` set (r1_skipped_keys st). 1 \<le> j \<and> j \<le> r1_step st"
    and z: "0 \<le> r1_step st" and l: "int (length (r1_skipped_keys st)) < MAX_STORED_KEYS"
    using assms by (auto simp: r1_inv_def list_all_iff)
  show ?thesis
  proof (cases "map_of (r1_skipped_keys st) ?t")
    case (Some mk)
    have "int (length (AList.delete ?t (r1_skipped_keys st))) < MAX_STORED_KEYS"
      using l delete_length_le [of ?t "r1_skipped_keys st"] by linarith
    moreover have "set (AList.delete ?t (r1_skipped_keys st)) \<subseteq> set (r1_skipped_keys st)"
      by (auto simp: AList.delete_eq)
    ultimately show ?thesis using Some d k z
      by (auto simp: SymmetricRatchetReceiver_decrypt_def Let_def r1_inv_def list_all_iff
          distinct_delete)
  next
    case None
    show ?thesis
    proof (cases "?t > r1_step st \<and> \<not> ?t - r1_step st > MAX_SKIP_RANGE \<and>
        \<not> int (length (r1_skipped_keys st)) + (?t - r1_step st) > MAX_STORED_KEYS")
      case False
      with None assms show ?thesis
        by (auto simp: SymmetricRatchetReceiver_decrypt_def Let_def)
    next
      case True
      then have eq: "snd (SymmetricRatchetReceiver_decrypt env st package aad) = snd (catch_up env st ?t)"
        using None by (auto simp: SymmetricRatchetReceiver_decrypt_def Let_def split: prod.splits)
      from catch_up_keys [OF d k z, of env ?t] True catch_up_step [of env st ?t] z
      show ?thesis unfolding eq
        by (auto simp: r1_inv_def list_all_iff)
    qed
  qed
qed

lemma v1_recv_all_inv: "r1_inv st \<Longrightarrow> r1_inv (snd (v1_recv_all env st calls))"
proof (induction calls arbitrary: st)
  case Nil
  then show ?case by simp
next
  case (Cons c calls)
  obtain package aad where c: "c = (package, aad)" by (cases c)
  from Cons.IH [OF v1_decrypt_inv [OF Cons.prems, of env package aad]]
  show ?case by (simp add: c split: prod.splits) (metis snd_conv)
qed

lemma inv_future_not_skipped:
  "r1_inv st \<Longrightarrow> r1_step st < t \<Longrightarrow> map_of (r1_skipped_keys st) t = None"
  by (auto simp: r1_inv_def list_all_iff map_of_eq_None_iff)

lemma v1_skip_too_large:
  assumes "r1_inv st" and "target_step_of env (r1_step st) aad - r1_step st > MAX_SKIP_RANGE"
  shows "SymmetricRatchetReceiver_decrypt env st package aad = (Inl SkipTooLarge, st)"
proof -
  have "r1_step st < target_step_of env (r1_step st) aad"
    using assms(2) by (simp add: MAX_SKIP_RANGE_def)
  with assms inv_future_not_skipped [OF assms(1) this] show ?thesis
    by (simp add: SymmetricRatchetReceiver_decrypt_def Let_def)
qed

lemma v1_skip_store_overflow:
  assumes "r1_inv st" and "r1_step st < target_step_of env (r1_step st) aad"
    and "target_step_of env (r1_step st) aad - r1_step st \<le> MAX_SKIP_RANGE"
    and "int (length (r1_skipped_keys st)) + (target_step_of env (r1_step st) aad - r1_step st)
           > MAX_STORED_KEYS"
  shows "SymmetricRatchetReceiver_decrypt env st package aad = (Inl SkipStoreOverflow, st)"
  using assms inv_future_not_skipped [OF assms(1,2)]
  by (simp add: SymmetricRatchetReceiver_decrypt_def Let_def)


lemma toy_target_5000: "target_step_of toy cur (Some (b ''seq:5000'')) = 5000"
  by (simp add: target_step_of_def toy_def toy_decode_def toy_int_def b_def u_def py_split_def Let_def)

lemma toy_target_2003: "target_step_of toy cur (Some (b ''seq:2003|id:x'')) = 2003"
  by (simp add: target_step_of_def toy_def toy_decode_def toy_int_def b_def u_def py_split_def Let_def)


lemma target_None: "target_step_of env cur None = cur + 1"
  by (simp add: target_step_of_def)

lemma crowded_receiver_inv: "r1_inv crowded_receiver"
  by (auto simp: r1_inv_def crowded_receiver_def list_all_iff comp_def distinct_map inj_on_def
      MAX_STORED_KEYS_def)

text \<open>
  C4. In a state of the receiver with metadata in clear (the invariant holds in every
  state that decrypt calls reach from the constructor, lemmas \<open>r1_inv_init\<close> and
  \<open>v1_recv_all_inv\<close>), a call whose target step is more than \<open>MAX_SKIP_RANGE\<close> ahead
  of the current step fails with SkipTooLarge; a call whose target is ahead by at most
  \<open>MAX_SKIP_RANGE\<close> and for which the stored keys plus the distance exceed
  \<open>MAX_STORED_KEYS\<close> fails with SkipStoreOverflow. The distance is tested first, so it
  decides when both bounds are exceeded. In both cases the state after the call is the
  state before it.
\<close>

theorem skip_guards_leave_state:
  assumes "r1_inv st"
  shows "(target_step_of env (r1_step st) aad - r1_step st > MAX_SKIP_RANGE \<longrightarrow>
            SymmetricRatchetReceiver_decrypt env st package aad = (Inl SkipTooLarge, st)) \<and>
         (r1_step st < target_step_of env (r1_step st) aad \<and>
          target_step_of env (r1_step st) aad - r1_step st \<le> MAX_SKIP_RANGE \<and>
          int (length (r1_skipped_keys st)) + (target_step_of env (r1_step st) aad - r1_step st)
            > MAX_STORED_KEYS \<longrightarrow>
            SymmetricRatchetReceiver_decrypt env st package aad = (Inl SkipStoreOverflow, st))"
  using v1_skip_too_large [OF assms] v1_skip_store_overflow [OF assms] by blast

theorem skip_guards_leave_state_witness:
  "r1_inv (SymmetricRatchetReceiver_init zeros32) \<and>
   SymmetricRatchetReceiver_decrypt toy (SymmetricRatchetReceiver_init zeros32) []
       (Some (b ''seq:5000''))
     = (Inl SkipTooLarge, SymmetricRatchetReceiver_init zeros32) \<and>
   r1_inv crowded_receiver \<and>
   SymmetricRatchetReceiver_decrypt toy crowded_receiver [] (Some (b ''seq:2003|id:x''))
     = (Inl SkipStoreOverflow, crowded_receiver)"
proof -
  have a: "r1_step (SymmetricRatchetReceiver_init zeros32) = 0"
    by (simp add: SymmetricRatchetReceiver_init_def)
  have c: "r1_step crowded_receiver = 2000" "length (r1_skipped_keys crowded_receiver) = 1998"
    by (simp_all add: crowded_receiver_def)
  show ?thesis
    using skip_guards_leave_state [OF r1_inv_init, of toy zeros32 "Some (b ''seq:5000'')" "[]"]
      skip_guards_leave_state [OF crowded_receiver_inv, of toy "Some (b ''seq:2003|id:x'')" "[]"]
      r1_inv_init [of zeros32] crowded_receiver_inv
    by (simp add: a c toy_target_5000 toy_target_2003 MAX_SKIP_RANGE_def MAX_STORED_KEYS_def)
qed

text \<open>
  C7. A decrypt call never lowers the step counter, whether it succeeds or fails, in both
  receivers; so the counters seen along any sequence of decrypt calls, from any state,
  never decrease.
\<close>

theorem step_never_decreases:
  "r1_step st1 \<le> r1_step (snd (SymmetricRatchetReceiver_decrypt env st1 package1 aad)) \<and>
   r2_step st2 \<le> r2_step (snd (QuantumDoubleRatchetReceiver_decrypt env st2 package2)) \<and>
   sorted (v1_steps env st1 calls1) \<and> sorted (v2_steps env st2 calls2)"
  by (simp add: v1_decrypt_step_mono v2_decrypt_step_mono v1_steps_sorted v2_steps_sorted)

theorem step_never_decreases_witness:
  "r1_step crowded_receiver
     \<le> r1_step (snd (SymmetricRatchetReceiver_decrypt toy crowded_receiver [] None)) \<and>
   r2_step (QuantumDoubleRatchetReceiver_init toy zeros32)
     \<le> r2_step (snd (QuantumDoubleRatchetReceiver_decrypt toy
           (QuantumDoubleRatchetReceiver_init toy zeros32) zeros32)) \<and>
   sorted (v1_steps toy crowded_receiver [([], None), ([], Some (b ''seq:0''))]) \<and>
   sorted (v2_steps toy (QuantumDoubleRatchetReceiver_init toy zeros32) [zeros32, []])"
  by (rule step_never_decreases)

text \<open>
  C10 as the code has it. For a secret that is a \<open>bytes\<close> value, of any length, each of
  the four constructors returns a ratchet: the secret as given is its chain key (and its
  root key in the zero-metadata ratchets), its step is 0, and the receivers hold no
  skipped key.
\<close>

theorem constructors_take_any_length:
  "SymmetricRatchet_init (PyBytes k) = Inr \<lparr>s1_chain_key = k, s1_step = 0\<rparr> \<and>
   SymmetricRatchetReceiver_init k = \<lparr>r1_chain_key = k, r1_step = 0, r1_skipped_keys = []\<rparr> \<and>
   QuantumDoubleRatchet_init k sender_id =
     \<lparr>s2_root_key = k, s2_chain_key = k, s2_step = 0, s2_sender_id = sender_id\<rparr> \<and>
   r2_root_key (QuantumDoubleRatchetReceiver_init env k) = k \<and>
   r2_chain_key (QuantumDoubleRatchetReceiver_init env k) = k \<and>
   r2_step (QuantumDoubleRatchetReceiver_init env k) = 0 \<and>
   r2_skipped_keys (QuantumDoubleRatchetReceiver_init env k) = []"
  by (simp add: SymmetricRatchet_init_def SymmetricRatchetReceiver_init_def
      QuantumDoubleRatchet_init_def QuantumDoubleRatchetReceiver_init_def
      refresh_lookup_cache_def)

theorem constructors_take_any_length_witness:
  "SymmetricRatchet_init (PyBytes [7]) = Inr \<lparr>s1_chain_key = [7], s1_step = 0\<rparr> \<and>
   r2_chain_key (QuantumDoubleRatchetReceiver_init toy [7]) = [7]"
  using constructors_take_any_length [of "[7]" "[]" toy] by simp

text \<open>C10 as stated fails: a secret of one byte is accepted by every constructor.\<close>

theorem short_secret_counterexample:
  "length [7 :: byte] \<noteq> 32 \<and>
   SymmetricRatchet_init (PyBytes [7]) = Inr \<lparr>s1_chain_key = [7], s1_step = 0\<rparr> \<and>
   SymmetricRatchetReceiver_init [7] = \<lparr>r1_chain_key = [7], r1_step = 0, r1_skipped_keys = []\<rparr> \<and>
   QuantumDoubleRatchet_init [7] (u ''User'') =
     \<lparr>s2_root_key = [7], s2_chain_key = [7], s2_step = 0, s2_sender_id = u ''User''\<rparr> \<and>
   r2_chain_key (QuantumDoubleRatchetReceiver_init toy [7]) = [7]"
  by (simp add: SymmetricRatchet_init_def SymmetricRatchetReceiver_init_def
      QuantumDoubleRatchet_init_def QuantumDoubleRatchetReceiver_init_def
      refresh_lookup_cache_def)


lemma decrypt_encrypt_message:
  assumes "urandom_len env" and "gcm_correct env"
  shows "decrypt_message env mk (fst (encrypt_message env mk plaintext aad w)) aad = Inr plaintext"
proof -
  obtain salt w1 where s: "urandom env SALT_SIZE w = (salt, w1)"
    by (cases "urandom env SALT_SIZE w")
  obtain nonce w2 where n: "urandom env NONCE_SIZE w1 = (nonce, w2)"
    by (cases "urandom env NONCE_SIZE w1")
  let ?key = "HKDF env mk AES_KEY_SIZE (Some salt) HKDF_INFO_V1"
  obtain ct tag where g: "gcm_encrypt env ?key nonce (aad_bytes aad) plaintext = (ct, tag)"
    by (cases "gcm_encrypt env ?key nonce (aad_bytes aad) plaintext")
  have ls: "length salt = 16" using assms(1) s
    by (metis SALT_SIZE_def fst_conv urandom_len_def)
  have ln: "length nonce = 12" using assms(1) n
    by (metis NONCE_SIZE_def fst_conv urandom_len_def)
  have lt: "length tag = 16" using assms(2) g
    by (metis TAG_SIZE_def snd_conv gcm_correct_def)
  have dec: "gcm_decrypt env ?key nonce (aad_bytes aad) ct tag = Some plaintext"
    using assms(2) g by (metis fst_conv snd_conv gcm_correct_def)
  have pkg: "fst (encrypt_message env mk plaintext aad w) = salt @ nonce @ ct @ tag"
    by (simp add: encrypt_message_def s n g)
  show ?thesis
    unfolding pkg
    by (simp add: decrypt_message_def Let_def SALT_SIZE_def NONCE_SIZE_def TAG_SIZE_def
        ls ln lt dec)
qed

lemma message_key_at_Suc:
  "HKDF env (chain_key_at env k n) AES_KEY_SIZE None RATCHET_INFO_MSG = message_key_at env k (Suc n)"
  by (simp add: message_key_at_def)











lemma toy_sel [simp]:
  "HKDF toy = toy_HKDF" "gcm_encrypt toy = toy_gcm_encrypt" "gcm_decrypt toy = toy_gcm_decrypt"
  "urandom toy = toy_urandom" "utf8_decode_ignore toy = toy_decode" "py_int toy = toy_int"
  "json_header toy = toy_json_header" "json_header_ok toy = toy_header_ok"
  by (simp_all add: toy_def)

lemma info_distinct:
  "RATCHET_INFO_MSG \<noteq> RATCHET_INFO_CHAIN" "HKDF_INFO_V1 \<noteq> RATCHET_INFO_CHAIN"
  "HKDF_INFO_V2 \<noteq> RATCHET_INFO_CHAIN" "MESSAGE_LOOKUP_ID \<noteq> RATCHET_INFO_CHAIN"
  by (simp_all add: RATCHET_INFO_MSG_def RATCHET_INFO_CHAIN_def HKDF_INFO_V1_def HKDF_INFO_V2_def
      MESSAGE_LOOKUP_ID_def b_def)

lemma toy_HKDF_plain:
  "context \<noteq> RATCHET_INFO_CHAIN \<Longrightarrow> length m = n \<Longrightarrow> toy_HKDF m n salt context = m"
  by (simp add: toy_HKDF_def)

lemma toy_HKDF_chain:
  "toy_HKDF (x # replicate 31 0) 32 salt RATCHET_INFO_CHAIN = (x + 1) # replicate 31 0"
  by (simp add: toy_HKDF_def toy_bump_def)

lemma toy_chain_key: "chain_key_at toy zeros32 n = of_nat n # replicate 31 0"
proof (induction n)
  case 0
  have "replicate 32 (0 :: byte) = 0 # replicate 31 0" by (simp add: numeral_eq_Suc)
  then show ?case by (simp add: zeros32_def)
next
  case (Suc n)
  then show ?case by (simp add: AES_KEY_SIZE_def toy_HKDF_chain add.commute)
qed

lemma toy_message_key: "message_key_at toy zeros32 n = of_nat (n - 1) # replicate 31 0"
  by (simp add: message_key_at_def toy_chain_key AES_KEY_SIZE_def toy_HKDF_plain info_distinct)

lemma hkdf_len_toy: "hkdf_len toy"
  by (auto simp: hkdf_len_def toy_HKDF_def)

lemma urandom_len_toy: "urandom_len toy"
  by (simp add: urandom_len_def toy_urandom_def)

lemma gcm_correct_toy: "gcm_correct toy"
  by (auto simp: gcm_correct_def toy_gcm_encrypt_def toy_gcm_decrypt_def toy_tag_def TAG_SIZE_def)

lemma gcm_len_toy: "gcm_len toy"
  by (simp add: gcm_len_def toy_gcm_encrypt_def)

lemma header_parses_toy: "header_parses toy"
  by (simp add: header_parses_def toy_json_header_def toy_header_ok_def b_def)


lemma toy_decrypt_message_other:
  "44 \<le> length package \<Longrightarrow> y \<noteq> hd (drop (length package - 16) package) \<Longrightarrow>
     decrypt_message toy (y # replicate 31 0) package aad = Inl AuthFailure"
  by (auto simp: decrypt_message_def Let_def AES_KEY_SIZE_def toy_HKDF_plain info_distinct
      toy_gcm_decrypt_def toy_tag_def SALT_SIZE_def NONCE_SIZE_def TAG_SIZE_def
      split: if_splits)

lemma of_nat_byte_inj:
  "i < 256 \<Longrightarrow> j < 256 \<Longrightarrow> (of_nat i :: byte) = of_nat j \<Longrightarrow> i = j"
  by (simp add: word_of_nat_eq_iff take_bit_nat_eq_self)




lemma map_of_index_skipped:
  "map_of (index_skipped env sk cache) = map_of (rev (skipped_entries env sk) @ cache)"
proof (induction sk arbitrary: cache)
  case Nil
  show ?case by (simp add: skipped_entries_def)
next
  case (Cons e sk)
  obtain seq key where e: "e = (seq, key)" by (cases e)
  show ?case
    by (simp add: e Cons.IH skipped_entries_def beacon_of_def update_conv' Let_def)
qed

lemma map_of_index_lookahead:
  "map_of (index_lookahead env n c t cache) = map_of (rev (lookahead_entries env n c t) @ cache)"
proof (induction n arbitrary: c t cache)
  case 0
  show ?case by simp
next
  case (Suc n)
  show ?case
    by (simp add: Suc.IH beacon_of_def update_conv' Let_def)
qed

lemma map_of_refresh:
  "map_of (r2_lookup_cache (refresh_lookup_cache env st)) =
     map_of (rev (skipped_entries env (r2_skipped_keys st) @
                  lookahead_entries env MAX_SKIP (r2_chain_key st) (r2_step st)))"
  by (simp add: refresh_lookup_cache_def map_of_index_lookahead map_of_index_skipped)

lemma refresh_fields [simp]:
  "r2_root_key (refresh_lookup_cache env st) = r2_root_key st"
  "r2_chain_key (refresh_lookup_cache env st) = r2_chain_key st"
  "r2_step (refresh_lookup_cache env st) = r2_step st"
  "r2_skipped_keys (refresh_lookup_cache env st) = r2_skipped_keys st"
  by (simp_all add: refresh_lookup_cache_def)

lemma refresh_idem: "refresh_lookup_cache env (refresh_lookup_cache env st) = refresh_lookup_cache env st"
  by (simp add: refresh_lookup_cache_def)

lemma cache_fresh_refresh: "cache_fresh env (refresh_lookup_cache env st)"
  by (simp add: cache_fresh_def refresh_idem)

lemma advance_chain_fields [simp]:
  "r2_chain_key (snd (advance_chain env st)) = HKDF env (r2_chain_key st) AES_KEY_SIZE None RATCHET_INFO_CHAIN"
  "r2_step (snd (advance_chain env st)) = r2_step st + 1"
  "r2_skipped_keys (snd (advance_chain env st)) = r2_skipped_keys st"
  "r2_root_key (snd (advance_chain env st)) = r2_root_key st"
  "fst (advance_chain env st) = HKDF env (r2_chain_key st) AES_KEY_SIZE None RATCHET_INFO_MSG"
  by (simp_all add: advance_chain_def Let_def)

lemma lookahead_entries_real:
  "lookahead_entries env n (r2_chain_key st) (r2_step st) =
     map (\<lambda>i. (beacon_of env (real_key env st i), (real_key env st i, r2_step st + int i + 1))) [0..<n]"
proof (induction n arbitrary: st)
  case 0
  show ?case by simp
next
  case (Suc n)
  have "[0..<Suc n] = 0 # map Suc [0..<n]"
    by (simp add: upt_conv_Cons map_Suc_upt del: upt_Suc)
  then show ?case
    using Suc.IH [of "snd (advance_chain env st)"]
    by (simp add: Let_def comp_def add.assoc del: upt_Suc)
qed

lemma cache_entry_sound:
  assumes "map_of (r2_lookup_cache (refresh_lookup_cache env st)) lid = Some (key, seq)"
    and "map_of (r2_skipped_keys st) seq = None"
  shows "\<exists>i < MAX_SKIP. seq = r2_step st + int i + 1 \<and> key = real_key env st i \<and>
           lid = beacon_of env key"
proof -
  from assms(1) have "(lid, (key, seq)) \<in> set (skipped_entries env (r2_skipped_keys st)) \<union>
      set (lookahead_entries env MAX_SKIP (r2_chain_key st) (r2_step st))"
    unfolding map_of_refresh by (auto dest: map_of_SomeD)
  moreover have "(lid, (key, seq)) \<notin> set (skipped_entries env (r2_skipped_keys st))"
  proof
    assume "(lid, (key, seq)) \<in> set (skipped_entries env (r2_skipped_keys st))"
    then have "(seq, key) \<in> set (r2_skipped_keys st)" by (auto simp: skipped_entries_def)
    then have "seq \<in> fst ` set (r2_skipped_keys st)" by force
    with assms(2) show False by (simp add: map_of_eq_None_iff)
  qed
  ultimately have "(lid, (key, seq)) \<in> set (lookahead_entries env MAX_SKIP (r2_chain_key st) (r2_step st))"
    by blast
  then show ?thesis unfolding lookahead_entries_real by auto
qed

declare advance_until.simps [simp del]

lemma real_key_cong:
  "r2_chain_key st = r2_chain_key st' \<Longrightarrow> real_key env st n = real_key env st' n"
proof (induction n arbitrary: st st')
  case 0
  then show ?case by simp
next
  case (Suc n)
  have "r2_chain_key (snd (advance_chain env st)) = r2_chain_key (snd (advance_chain env st'))"
    using Suc.prems by simp
  from Suc.IH [OF this] show ?case by simp
qed

lemma advance_until_real_key:
  "r2_step st < m \<Longrightarrow>
     fst (advance_until env st m blob)
       = unpack env (trial_decrypt env (real_key env st (nat (m - r2_step st - 1))) blob) \<and>
     r2_step (snd (advance_until env st m blob)) = m"
proof (induction env st m blob rule: advance_until.induct)
  case (1 env st m blob)
  obtain key st1 where adv: "advance_chain env st = (key, st1)" by (cases "advance_chain env st")
  have k: "key = fst (advance_chain env st)" and s1: "st1 = snd (advance_chain env st)"
    using adv by simp_all
  have step1: "r2_step st1 = r2_step st + 1" by (simp add: s1)
  show ?case
  proof (cases "r2_step st1 = m")
    case True
    then have "nat (m - r2_step st - 1) = 0" using step1 by simp
    then show ?thesis using "1.prems" adv True
      by (subst (1 2) advance_until.simps) (simp add: Let_def k)
  next
    case False
    let ?st2 = "st1\<lparr>r2_skipped_keys := AList.update (r2_step st1) key (r2_skipped_keys st1)\<rparr>"
    have eq: "advance_until env st m blob = advance_until env ?st2 m blob"
      using "1.prems" adv False by (subst advance_until.simps) simp
    have lt: "r2_step ?st2 < m" using "1.prems" False step1 by simp
    have rk: "real_key env ?st2 n = real_key env st1 n" for n
      by (rule real_key_cong) simp
    have n: "nat (m - r2_step st - 1) = Suc (nat (m - r2_step ?st2 - 1))"
      using lt step1 by simp
    have c: "real_key env st (Suc j) = real_key env ?st2 j" for j
      using rk [of j] by (simp add: s1)
    show ?thesis
      unfolding eq n c by (rule "1.IH" [OF "1.prems" refl adv [symmetric] False lt])
  qed
qed

lemma real_key_on_chain:
  "r2_chain_key st = chain_key_at env k n \<Longrightarrow> real_key env st i = message_key_at env k (n + i + 1)"
proof (induction i arbitrary: st n)
  case 0
  then show ?case by (simp add: message_key_at_def)
next
  case (Suc i)
  have "r2_chain_key (snd (advance_chain env st)) = chain_key_at env k (Suc n)"
    using Suc.prems by simp
  from Suc.IH [OF this] show ?case by simp
qed

lemma cache_lookup_hit:
  assumes "distinct (map fst (skipped_entries env (r2_skipped_keys st) @
             lookahead_entries env MAX_SKIP (r2_chain_key st) (r2_step st)))"
    and "(lid, v) \<in> set (skipped_entries env (r2_skipped_keys st) @
             lookahead_entries env MAX_SKIP (r2_chain_key st) (r2_step st))"
  shows "map_of (r2_lookup_cache (refresh_lookup_cache env st)) lid = Some v"
proof -
  let ?E = "skipped_entries env (r2_skipped_keys st) @
             lookahead_entries env MAX_SKIP (r2_chain_key st) (r2_step st)"
  have "distinct (map fst (rev ?E))" using assms(1) by (simp only: rev_map [symmetric] distinct_rev)
  moreover have "(lid, v) \<in> set (rev ?E)" using assms(2) by (simp only: set_rev)
  ultimately have "map_of (rev ?E) lid = Some v" by (rule map_of_is_SomeI)
  then show ?thesis by (simp only: map_of_refresh)
qed

lemma beacon_inj:
  assumes "beacons_distinct env k N"
  shows "inj_on (beacon_at env k) {1..N}"
proof (rule inj_onI)
  fix i j assume i: "i \<in> {1..N}" and j: "j \<in> {1..N}" and e: "beacon_at env k i = beacon_at env k j"
  show "i = j"
  proof (rule ccontr)
    assume "i \<noteq> j"
    then consider "i < j" | "j < i" by linarith
    then show False
    proof cases
      case 1
      with assms i j e show False unfolding beacons_distinct_def by auto
    next
      case 2
      with assms i j e show False unfolding beacons_distinct_def by (metis atLeastAtMost_iff)
    qed
  qed
qed

lemma on_chain_entries:
  assumes oc: "r2_on_chain env k st"
  shows "skipped_entries env (r2_skipped_keys st) @
           lookahead_entries env MAX_SKIP (r2_chain_key st) (r2_step st)
         = map (\<lambda>j. (beacon_at env k j, (message_key_at env k j, int j)))
             (map (\<lambda>e. nat (fst e)) (r2_skipped_keys st) @
              map (\<lambda>i. nat (r2_step st) + i + 1) [0..<MAX_SKIP])"
proof -
  let ?n = "nat (r2_step st)"
  have ck: "r2_chain_key st = chain_key_at env k ?n" and s0: "0 \<le> r2_step st"
    and sk: "\<forall>(j, key) \<in> set (r2_skipped_keys st).
               1 \<le> j \<and> j \<le> r2_step st \<and> key = message_key_at env k (nat j)"
    using oc by (auto simp: r2_on_chain_def list_all_iff)
  have a: "skipped_entries env (r2_skipped_keys st)
      = map (\<lambda>j. (beacon_at env k j, (message_key_at env k j, int j)))
          (map (\<lambda>e. nat (fst e)) (r2_skipped_keys st))"
    unfolding skipped_entries_def map_map
    by (rule map_cong [OF refl]) (use sk in \<open>auto simp: beacon_at_def\<close>)
  have b: "lookahead_entries env MAX_SKIP (r2_chain_key st) (r2_step st)
      = map (\<lambda>j. (beacon_at env k j, (message_key_at env k j, int j)))
          (map (\<lambda>i. ?n + i + 1) [0..<MAX_SKIP])"
    unfolding lookahead_entries_real map_map
    by (rule map_cong [OF refl]) (use s0 in \<open>simp add: real_key_on_chain [OF ck] beacon_at_def\<close>)
  show ?thesis by (simp only: a b map_append)
qed

lemma on_chain_lookup:
  assumes oc: "r2_on_chain env k st"
    and bd: "beacons_distinct env k (nat (r2_step st) + MAX_SKIP)"
    and live: "map_of (r2_skipped_keys st) (int j) \<noteq> None \<or>
               (r2_step st < int j \<and> int j \<le> r2_step st + int MAX_SKIP)"
  shows "map_of (r2_lookup_cache st) (beacon_at env k j) = Some (message_key_at env k j, int j)"
proof -
  let ?n = "nat (r2_step st)"
  let ?J = "map (\<lambda>e. nat (fst e)) (r2_skipped_keys st) @ map (\<lambda>i. ?n + i + 1) [0..<MAX_SKIP]"
  have s0: "0 \<le> r2_step st" and dk: "distinct (map fst (r2_skipped_keys st))"
    and sk: "\<forall>(j, key) \<in> set (r2_skipped_keys st). 1 \<le> j \<and> j \<le> r2_step st"
    and fresh: "cache_fresh env st"
    using oc by (auto simp: r2_on_chain_def list_all_iff)
  have inj1: "inj_on (\<lambda>e. nat (fst e)) (set (r2_skipped_keys st))"
  proof (rule inj_onI)
    fix x y assume x: "x \<in> set (r2_skipped_keys st)" and y: "y \<in> set (r2_skipped_keys st)"
      and e: "nat (fst x) = nat (fst y)"
    from sk x y have "1 \<le> fst x" "1 \<le> fst y" by auto
    with e have "fst x = fst y" by linarith
    with dk x y show "x = y" by (meson distinct_map inj_onD)
  qed
  have d1: "distinct (map (\<lambda>e. nat (fst e)) (r2_skipped_keys st))"
    using dk inj1 by (simp add: distinct_map)
  have d2: "distinct (map (\<lambda>i. ?n + i + 1) [0..<MAX_SKIP])"
    by (simp add: distinct_map inj_on_def)
  have disj: "set (map (\<lambda>e. nat (fst e)) (r2_skipped_keys st)) \<inter>
              set (map (\<lambda>i. ?n + i + 1) [0..<MAX_SKIP]) = {}"
    using sk by fastforce
  have dJ: "distinct ?J" using d1 d2 disj by (simp only: distinct_append)
  have rng: "set ?J \<subseteq> {1..?n + MAX_SKIP}"
    using sk by fastforce
  have "inj_on (beacon_at env k) (set ?J)"
    by (rule inj_on_subset [OF beacon_inj [OF bd] rng])
  then have dE: "distinct (map fst (map (\<lambda>j. (beacon_at env k j, (message_key_at env k j, int j))) ?J))"
    using dJ by (simp only: map_map comp_def fst_conv distinct_map)
  have "j \<in> set ?J"
    using live
  proof
    assume "map_of (r2_skipped_keys st) (int j) \<noteq> None"
    then have "int j \<in> fst ` set (r2_skipped_keys st)" by (simp add: map_of_eq_None_iff)
    then obtain e where "e \<in> set (r2_skipped_keys st)" "fst e = int j" by auto
    then have "nat (fst e) = j" "e \<in> set (r2_skipped_keys st)" by simp_all
    then show ?thesis by force
  next
    assume w: "r2_step st < int j \<and> int j \<le> r2_step st + int MAX_SKIP"
    then have "j - ?n - 1 < MAX_SKIP" "?n + (j - ?n - 1) + 1 = j" using s0 by linarith+
    then show ?thesis by force
  qed
  then have mem: "(beacon_at env k j, (message_key_at env k j, int j))
      \<in> set (map (\<lambda>j. (beacon_at env k j, (message_key_at env k j, int j))) ?J)"
    by (simp only: set_map) blast
  have "map_of (r2_lookup_cache (refresh_lookup_cache env st)) (beacon_at env k j)
      = Some (message_key_at env k j, int j)"
    by (rule cache_lookup_hit) (simp_all only: on_chain_entries [OF oc] dE mem)
  with fresh show ?thesis by (simp add: cache_fresh_def)
qed

lemma r2_on_chain_init: "r2_on_chain env k (QuantumDoubleRatchetReceiver_init env k)"
  by (simp add: r2_on_chain_def QuantumDoubleRatchetReceiver_init_def cache_fresh_refresh)

lemma toy_beacon_at: "beacon_at toy zeros32 n = of_nat (n - 1) # replicate 15 0"
  by (simp add: beacon_at_def beacon_of_def toy_message_key toy_HKDF_def info_distinct numeral_eq_Suc)

lemma beacons_distinct_toy: "beacons_distinct toy zeros32 200"
  unfolding beacons_distinct_def
proof (intro allI impI)
  fix i j :: nat
  assume h: "1 \<le> i \<and> i < j \<and> j \<le> 200"
  then have "i - 1 < 256" "j - 1 < 256" "i - 1 \<noteq> j - 1" by linarith+
  then have "(of_nat (i - 1) :: byte) \<noteq> of_nat (j - 1)"
    using of_nat_byte_inj [of "i - 1" "j - 1"] by auto
  then show "beacon_at toy zeros32 i \<noteq> beacon_at toy zeros32 j"
    by (simp only: toy_beacon_at) simp
qed

lemma beacons_distinct_mono: "beacons_distinct env k n \<Longrightarrow> m \<le> n \<Longrightarrow> beacons_distinct env k m"
  by (auto simp: beacons_distinct_def)

lemma init_fields [simp]:
  "r2_step (QuantumDoubleRatchetReceiver_init env k) = 0"
  "r2_skipped_keys (QuantumDoubleRatchetReceiver_init env k) = []"
  "r2_chain_key (QuantumDoubleRatchetReceiver_init env k) = k"
  "refresh_lookup_cache env (QuantumDoubleRatchetReceiver_init env k) = QuantumDoubleRatchetReceiver_init env k"
  by (simp_all add: QuantumDoubleRatchetReceiver_init_def refresh_idem)

lemma toy_init_lookup:
  assumes "1 \<le> j" and "j \<le> 100"
  shows "map_of (r2_lookup_cache (QuantumDoubleRatchetReceiver_init toy zeros32)) (beacon_at toy zeros32 j)
     = Some (message_key_at toy zeros32 j, int j)"
proof (rule on_chain_lookup [OF r2_on_chain_init])
  show "beacons_distinct toy zeros32 (nat (r2_step (QuantumDoubleRatchetReceiver_init toy zeros32)) + MAX_SKIP)"
    by (rule beacons_distinct_mono [OF beacons_distinct_toy]) (simp add: MAX_SKIP_def)
  show "map_of (r2_skipped_keys (QuantumDoubleRatchetReceiver_init toy zeros32)) (int j) \<noteq> None \<or>
    r2_step (QuantumDoubleRatchetReceiver_init toy zeros32) < int j \<and>
    int j \<le> r2_step (QuantumDoubleRatchetReceiver_init toy zeros32) + int MAX_SKIP"
    using assms by (simp add: MAX_SKIP_def)
qed

text \<open>
  C9. In every state of the zero-metadata receiver, an entry of the lookup cache that
  \<open>_refresh_lookup_cache\<close> computes whose step is not a skipped key was written from the
  shadow chain: its step lies in the lookahead window, from one to \<open>MAX_SKIP\<close> above the
  current step, its key is byte for byte the message key that \<open>_advance_chain\<close> returns
  for that step on the real chain from the same state, its identifier is the beacon of
  that key, and the loop of \<open>decrypt\<close> that advances the real chain to that step
  decrypts with this very key. The whole cache is the skipped keys followed by the keys of
  the real chain for the \<open>MAX_SKIP\<close> next steps.
\<close>

theorem cached_key_is_real_key:
  fixes env :: "'w lib"
  shows "(map_of (r2_lookup_cache (refresh_lookup_cache env st)) lid = Some (key, seq) \<and>
          map_of (r2_skipped_keys st) seq = None \<longrightarrow>
            r2_step st < seq \<and> seq \<le> r2_step st + int MAX_SKIP \<and>
            key = real_key env st (nat (seq - r2_step st - 1)) \<and>
            lid = beacon_of env key \<and>
            fst (advance_until env st seq blob) = unpack env (trial_decrypt env key blob)) \<and>
         map_of (r2_lookup_cache (refresh_lookup_cache env st)) =
           map_of (rev (skipped_entries env (r2_skipped_keys st) @
                        map (\<lambda>i. (beacon_of env (real_key env st i),
                                   (real_key env st i, r2_step st + int i + 1))) [0..<MAX_SKIP]))"
proof (intro conjI impI)
  assume h: "map_of (r2_lookup_cache (refresh_lookup_cache env st)) lid = Some (key, seq) \<and>
          map_of (r2_skipped_keys st) seq = None"
  then obtain i where i: "i < MAX_SKIP" "seq = r2_step st + int i + 1" "key = real_key env st i"
      "lid = beacon_of env key"
    using cache_entry_sound [of env st lid key seq] by blast
  have n: "nat (seq - r2_step st - 1) = i" using i(2) by simp
  show "r2_step st < seq" using i(2) by simp
  show "seq \<le> r2_step st + int MAX_SKIP" using i(1,2) by simp
  show "key = real_key env st (nat (seq - r2_step st - 1))" using i(3) n by simp
  show "lid = beacon_of env key" by (rule i(4))
  have "r2_step st < seq" using i(2) by simp
  from advance_until_real_key [OF this, of env blob]
  show "fst (advance_until env st seq blob) = unpack env (trial_decrypt env key blob)"
    using i(3) n by simp
next
  show "map_of (r2_lookup_cache (refresh_lookup_cache env st)) =
           map_of (rev (skipped_entries env (r2_skipped_keys st) @
                        map (\<lambda>i. (beacon_of env (real_key env st i),
                                   (real_key env st i, r2_step st + int i + 1))) [0..<MAX_SKIP]))"
    by (simp only: map_of_refresh lookahead_entries_real)
qed

theorem cached_key_is_real_key_witness:
  "map_of (r2_lookup_cache (refresh_lookup_cache toy (QuantumDoubleRatchetReceiver_init toy zeros32)))
       (beacon_at toy zeros32 3) = Some (message_key_at toy zeros32 3, 3) \<and>
   map_of (r2_skipped_keys (QuantumDoubleRatchetReceiver_init toy zeros32)) 3 = None \<and>
   r2_step (QuantumDoubleRatchetReceiver_init toy zeros32) < 3 \<and>
   message_key_at toy zeros32 3
     = real_key toy (QuantumDoubleRatchetReceiver_init toy zeros32)
         (nat (3 - r2_step (QuantumDoubleRatchetReceiver_init toy zeros32) - 1)) \<and>
   beacon_at toy zeros32 3 = beacon_of toy (message_key_at toy zeros32 3) \<and>
   fst (advance_until toy (QuantumDoubleRatchetReceiver_init toy zeros32) 3 [])
     = unpack toy (trial_decrypt toy (message_key_at toy zeros32 3) [])"
  using cached_key_is_real_key [where env = toy and st = "QuantumDoubleRatchetReceiver_init toy zeros32"
      and lid = "beacon_at toy zeros32 3" and key = "message_key_at toy zeros32 3" and seq = 3
      and blob = "[]"]
    toy_init_lookup [of 3]
  by simp

lemma delete_changes: "map_of al k \<noteq> None \<Longrightarrow> AList.delete k al \<noteq> al"
proof
  assume a: "map_of al k \<noteq> None" and e: "AList.delete k al = al"
  have "map_of (AList.delete k al) k = None" by (simp add: delete_conv')
  with a e show False by simp
qed

lemma v1_state_ignores_package:
  "snd (SymmetricRatchetReceiver_decrypt env st package aad)
     = snd (SymmetricRatchetReceiver_decrypt env st package' aad)"
  by (simp add: SymmetricRatchetReceiver_decrypt_def Let_def split: option.splits prod.splits)

lemma v1_auth_failure:
  fixes env :: "'w lib"
  assumes af: "fst (SymmetricRatchetReceiver_decrypt env st package aad) = Inl AuthFailure"
  shows "(map_of (r1_skipped_keys st) (target_step_of env (r1_step st) aad) \<noteq> None \<and>
          snd (SymmetricRatchetReceiver_decrypt env st package aad)
            = st\<lparr>r1_skipped_keys :=
                   AList.delete (target_step_of env (r1_step st) aad) (r1_skipped_keys st)\<rparr>) \<or>
         (map_of (r1_skipped_keys st) (target_step_of env (r1_step st) aad) = None \<and>
          r1_step st < target_step_of env (r1_step st) aad \<and>
          r1_step (snd (SymmetricRatchetReceiver_decrypt env st package aad))
            = target_step_of env (r1_step st) aad)"
proof (cases "map_of (r1_skipped_keys st) (target_step_of env (r1_step st) aad)")
  case (Some mk)
  then show ?thesis by (simp add: SymmetricRatchetReceiver_decrypt_def Let_def)
next
  case None
  let ?t = "target_step_of env (r1_step st) aad"
  have lt: "r1_step st < ?t"
    using af None
    by (auto simp: SymmetricRatchetReceiver_decrypt_def Let_def split: if_splits)
  have "snd (SymmetricRatchetReceiver_decrypt env st package aad) = snd (catch_up env st ?t)"
    using af None
    by (auto simp: SymmetricRatchetReceiver_decrypt_def Let_def split: if_splits prod.splits)
  then have "r1_step (snd (SymmetricRatchetReceiver_decrypt env st package aad)) = ?t"
    using lt by (simp add: catch_up_step)
  with None lt show ?thesis by blast
qed

lemma v1_auth_failure_changes:
  fixes env :: "'w lib"
  assumes af: "fst (SymmetricRatchetReceiver_decrypt env st package aad) = Inl AuthFailure"
  shows "snd (SymmetricRatchetReceiver_decrypt env st package aad) \<noteq> st"
proof
  assume e: "snd (SymmetricRatchetReceiver_decrypt env st package aad) = st"
  from v1_auth_failure [OF af] show False
  proof
    assume a: "map_of (r1_skipped_keys st) (target_step_of env (r1_step st) aad) \<noteq> None \<and>
          snd (SymmetricRatchetReceiver_decrypt env st package aad)
            = st\<lparr>r1_skipped_keys :=
                   AList.delete (target_step_of env (r1_step st) aad) (r1_skipped_keys st)\<rparr>"
    then have "r1_skipped_keys st
        = AList.delete (target_step_of env (r1_step st) aad) (r1_skipped_keys st)"
      using e by (metis receiver_v1.select_convs(3) receiver_v1.surjective receiver_v1.update_convs(3))
    with a delete_changes show False by metis
  next
    assume "map_of (r1_skipped_keys st) (target_step_of env (r1_step st) aad) = None \<and>
          r1_step st < target_step_of env (r1_step st) aad \<and>
          r1_step (snd (SymmetricRatchetReceiver_decrypt env st package aad))
            = target_step_of env (r1_step st) aad"
    with e show False by auto
  qed
qed

lemma advance_until_not_ahead:
  "\<not> r2_step st < m \<Longrightarrow> advance_until env st m blob = (Inl UnknownBeacon, st)"
  by (subst advance_until.simps) simp

lemma v2_auth_failure:
  fixes env :: "'w lib"
  assumes af: "fst (QuantumDoubleRatchetReceiver_decrypt env st package) = Inl AuthFailure"
  shows "\<exists>key seq. map_of (r2_lookup_cache st) (take 16 package) = Some (key, seq) \<and>
           ((map_of (r2_skipped_keys st) seq \<noteq> None \<and>
             r2_step (snd (QuantumDoubleRatchetReceiver_decrypt env st package)) = r2_step st \<and>
             r2_skipped_keys (snd (QuantumDoubleRatchetReceiver_decrypt env st package))
               = AList.delete seq (r2_skipped_keys st)) \<or>
            (map_of (r2_skipped_keys st) seq = None \<and> r2_step st < seq \<and>
             r2_step (snd (QuantumDoubleRatchetReceiver_decrypt env st package)) = seq))"
proof -
  have len: "\<not> length package < 16 + NONCE_SIZE + TAG_SIZE"
    using af by (auto simp: QuantumDoubleRatchetReceiver_decrypt_def)
  obtain key seq where hit: "map_of (r2_lookup_cache st) (take 16 package) = Some (key, seq)"
    using af len
    by (cases "map_of (r2_lookup_cache st) (take 16 package)")
       (auto simp: QuantumDoubleRatchetReceiver_decrypt_def Let_def)
  show ?thesis
  proof (cases "map_of (r2_skipped_keys st) seq = None")
    case False
    then have "r2_step (snd (QuantumDoubleRatchetReceiver_decrypt env st package)) = r2_step st \<and>
             r2_skipped_keys (snd (QuantumDoubleRatchetReceiver_decrypt env st package))
               = AList.delete seq (r2_skipped_keys st)"
      using len hit by (simp add: QuantumDoubleRatchetReceiver_decrypt_def Let_def)
    with hit False show ?thesis by blast
  next
    case True
    then have d: "QuantumDoubleRatchetReceiver_decrypt env st package
        = advance_until env st seq (drop 16 package)"
      using len hit by (simp add: QuantumDoubleRatchetReceiver_decrypt_def Let_def)
    have lt: "r2_step st < seq"
    proof (rule ccontr)
      assume "\<not> r2_step st < seq"
      from advance_until_not_ahead [OF this, of env "drop 16 package"] af d show False by simp
    qed
    from advance_until_real_key [OF lt, of env "drop 16 package"] d
    have "r2_step (snd (QuantumDoubleRatchetReceiver_decrypt env st package)) = seq" by simp
    with hit True lt show ?thesis by blast
  qed
qed

lemma v2_auth_failure_changes:
  fixes env :: "'w lib"
  assumes af: "fst (QuantumDoubleRatchetReceiver_decrypt env st package) = Inl AuthFailure"
  shows "snd (QuantumDoubleRatchetReceiver_decrypt env st package) \<noteq> st"
proof
  assume e: "snd (QuantumDoubleRatchetReceiver_decrypt env st package) = st"
  from v2_auth_failure [OF af] obtain key seq where
    "(map_of (r2_skipped_keys st) seq \<noteq> None \<and>
             r2_step (snd (QuantumDoubleRatchetReceiver_decrypt env st package)) = r2_step st \<and>
             r2_skipped_keys (snd (QuantumDoubleRatchetReceiver_decrypt env st package))
               = AList.delete seq (r2_skipped_keys st)) \<or>
            (map_of (r2_skipped_keys st) seq = None \<and> r2_step st < seq \<and>
             r2_step (snd (QuantumDoubleRatchetReceiver_decrypt env st package)) = seq)"
    by blast
  then show False
  proof
    assume "map_of (r2_skipped_keys st) seq \<noteq> None \<and>
             r2_step (snd (QuantumDoubleRatchetReceiver_decrypt env st package)) = r2_step st \<and>
             r2_skipped_keys (snd (QuantumDoubleRatchetReceiver_decrypt env st package))
               = AList.delete seq (r2_skipped_keys st)"
    with e delete_changes [of "r2_skipped_keys st" seq] show False by simp
  next
    assume "map_of (r2_skipped_keys st) seq = None \<and> r2_step st < seq \<and>
             r2_step (snd (QuantumDoubleRatchetReceiver_decrypt env st package)) = seq"
    with e show False by auto
  qed
qed

lemma toy_forged_v1:
  "SymmetricRatchetReceiver_decrypt toy (SymmetricRatchetReceiver_init zeros32)
     (replicate 28 0 @ 1 # replicate 15 0) None = (Inl AuthFailure, receiver_at_1)"
proof -
  let ?st = "\<lparr>r1_chain_key = 0 # replicate 31 0, r1_step = 0, r1_skipped_keys = []\<rparr>"
  have z: "zeros32 = 0 # replicate 31 0" by (simp add: zeros32_def numeral_eq_Suc)
  have i: "SymmetricRatchetReceiver_init zeros32 = ?st"
    by (simp add: SymmetricRatchetReceiver_init_def z)
  have adv: "SymmetricRatchetReceiver_advance toy ?st = (0 # replicate 31 0, receiver_at_1)"
    by (simp add: SymmetricRatchetReceiver_advance_def Let_def
        AES_KEY_SIZE_def toy_HKDF_plain info_distinct toy_HKDF_chain receiver_at_1_def)
  have cu: "catch_up toy ?st 1 = (0 # replicate 31 0, receiver_at_1)"
    by (subst catch_up.simps) (simp add: adv receiver_at_1_def)
  have dm: "decrypt_message toy (0 # replicate 31 0) (replicate 28 0 @ 1 # replicate 15 0) None = Inl AuthFailure"
    by (rule toy_decrypt_message_other) (simp_all add: numeral_eq_Suc)
  have t: "target_step_of toy (r1_step ?st) None = 1"
    by (simp add: target_None)
  show ?thesis
    unfolding i SymmetricRatchetReceiver_decrypt_def Let_def t
    by (simp add: cu dm MAX_SKIP_RANGE_def MAX_STORED_KEYS_def)
qed

lemma toy_forged_v2:
  "fst (QuantumDoubleRatchetReceiver_decrypt toy (QuantumDoubleRatchetReceiver_init toy zeros32)
     (beacon_at toy zeros32 1 @ replicate 12 0 @ 1 # replicate 15 0)) = Inl AuthFailure"
proof -
  define B where "B = beacon_at toy zeros32 1"
  let ?st = "QuantumDoubleRatchetReceiver_init toy zeros32"
  let ?blob = "replicate 12 0 @ (1 :: byte) # replicate 15 0"
  have lb: "length B = 16" by (simp add: B_def toy_beacon_at)
  have hit: "map_of (r2_lookup_cache ?st) B = Some (message_key_at toy zeros32 1, 1)"
    unfolding B_def using toy_init_lookup [of 1] by simp
  have d: "QuantumDoubleRatchetReceiver_decrypt toy ?st (B @ ?blob) = advance_until toy ?st 1 ?blob"
    by (simp add: QuantumDoubleRatchetReceiver_decrypt_def Let_def lb hit NONCE_SIZE_def TAG_SIZE_def)
  have rk: "real_key toy ?st 0 = 0 # replicate 31 0"
    by (simp add: zeros32_def AES_KEY_SIZE_def toy_HKDF_plain info_distinct numeral_eq_Suc)
  have td: "trial_decrypt toy (0 # replicate 31 0) ?blob = None"
    by (simp add: trial_decrypt_def Let_def AES_KEY_SIZE_def toy_HKDF_plain info_distinct
        toy_gcm_decrypt_def toy_tag_def NONCE_SIZE_def TAG_SIZE_def numeral_eq_Suc)
  have "fst (advance_until toy ?st 1 ?blob) = unpack toy (trial_decrypt toy (real_key toy ?st 0) ?blob)"
    using advance_until_real_key [of ?st 1 toy ?blob] by simp
  then have "fst (QuantumDoubleRatchetReceiver_decrypt toy ?st (B @ ?blob)) = Inl AuthFailure"
    unfolding d rk td by (simp add: unpack_def)
  then show ?thesis unfolding B_def .
qed

text \<open>
  C5 as the code has it. Both receivers change their state before they authenticate, so a
  call that fails with AuthFailure has consumed the key of its target step, and the state
  after the call is never the state before it. In the receiver with metadata in clear the
  state after a call does not depend on the package at all; after AuthFailure either the
  target step was a skipped key, and that key is deleted, or it was ahead, and the step
  counter now is the target step. In the zero-metadata receiver AuthFailure arises only
  for a beacon found in the lookup cache; either its step was a skipped key, and that key
  is deleted, or it was ahead, and the step counter now is that step.
\<close>

theorem auth_failure_consumes_key:
  fixes env :: "'w lib"
  shows
   "(fst (SymmetricRatchetReceiver_decrypt env st1 package1 aad) = Inl AuthFailure \<longrightarrow>
       snd (SymmetricRatchetReceiver_decrypt env st1 package1 aad) \<noteq> st1 \<and>
       ((map_of (r1_skipped_keys st1) (target_step_of env (r1_step st1) aad) \<noteq> None \<and>
         snd (SymmetricRatchetReceiver_decrypt env st1 package1 aad)
           = st1\<lparr>r1_skipped_keys :=
                  AList.delete (target_step_of env (r1_step st1) aad) (r1_skipped_keys st1)\<rparr>) \<or>
        (map_of (r1_skipped_keys st1) (target_step_of env (r1_step st1) aad) = None \<and>
         r1_step st1 < target_step_of env (r1_step st1) aad \<and>
         r1_step (snd (SymmetricRatchetReceiver_decrypt env st1 package1 aad))
           = target_step_of env (r1_step st1) aad))) \<and>
    snd (SymmetricRatchetReceiver_decrypt env st1 package1 aad)
      = snd (SymmetricRatchetReceiver_decrypt env st1 package1' aad) \<and>
    (fst (QuantumDoubleRatchetReceiver_decrypt env st2 package2) = Inl AuthFailure \<longrightarrow>
       snd (QuantumDoubleRatchetReceiver_decrypt env st2 package2) \<noteq> st2 \<and>
       (\<exists>key seq. map_of (r2_lookup_cache st2) (take 16 package2) = Some (key, seq) \<and>
          ((map_of (r2_skipped_keys st2) seq \<noteq> None \<and>
            r2_step (snd (QuantumDoubleRatchetReceiver_decrypt env st2 package2)) = r2_step st2 \<and>
            r2_skipped_keys (snd (QuantumDoubleRatchetReceiver_decrypt env st2 package2))
              = AList.delete seq (r2_skipped_keys st2)) \<or>
           (map_of (r2_skipped_keys st2) seq = None \<and> r2_step st2 < seq \<and>
            r2_step (snd (QuantumDoubleRatchetReceiver_decrypt env st2 package2)) = seq))))"
  using v1_auth_failure [of env st1 package1 aad] v1_auth_failure_changes [of env st1 package1 aad]
    v1_state_ignores_package [of env st1 package1 aad package1']
    v2_auth_failure [of env st2 package2] v2_auth_failure_changes [of env st2 package2]
  by blast

theorem auth_failure_consumes_key_witness:
  "fst (SymmetricRatchetReceiver_decrypt toy (SymmetricRatchetReceiver_init zeros32)
          (replicate 28 0 @ 1 # replicate 15 0) None) = Inl AuthFailure \<and>
   snd (SymmetricRatchetReceiver_decrypt toy (SymmetricRatchetReceiver_init zeros32)
          (replicate 28 0 @ 1 # replicate 15 0) None) \<noteq> SymmetricRatchetReceiver_init zeros32 \<and>
   r1_step (snd (SymmetricRatchetReceiver_decrypt toy (SymmetricRatchetReceiver_init zeros32)
          (replicate 28 0 @ 1 # replicate 15 0) None)) = 1 \<and>
   fst (QuantumDoubleRatchetReceiver_decrypt toy (QuantumDoubleRatchetReceiver_init toy zeros32)
          (beacon_at toy zeros32 1 @ replicate 12 0 @ 1 # replicate 15 0)) = Inl AuthFailure \<and>
   snd (QuantumDoubleRatchetReceiver_decrypt toy (QuantumDoubleRatchetReceiver_init toy zeros32)
          (beacon_at toy zeros32 1 @ replicate 12 0 @ 1 # replicate 15 0))
     \<noteq> QuantumDoubleRatchetReceiver_init toy zeros32"
  using auth_failure_consumes_key [where env = toy and ?st1.0 = "SymmetricRatchetReceiver_init zeros32"
      and ?package1.0 = "replicate 28 0 @ 1 # replicate 15 0" and aad = None
      and ?st2.0 = "QuantumDoubleRatchetReceiver_init toy zeros32"
      and ?package2.0 = "beacon_at toy zeros32 1 @ replicate 12 0 @ 1 # replicate 15 0"]
    toy_forged_v1 toy_forged_v2
  by (simp add: receiver_at_1_def)

text \<open>C5 as stated fails: a package of 44 bytes whose tag is wrong, given to a new
  receiver with metadata in clear, fails with AuthFailure and leaves the receiver at
  step 1 with the next chain key.\<close>

theorem auth_failure_advances_counterexample:
  "SymmetricRatchetReceiver_decrypt toy (SymmetricRatchetReceiver_init zeros32)
     (replicate 28 0 @ 1 # replicate 15 0) None = (Inl AuthFailure, receiver_at_1) \<and>
   r1_step (SymmetricRatchetReceiver_init zeros32) = 0 \<and> r1_step receiver_at_1 = 1 \<and>
   r1_chain_key (SymmetricRatchetReceiver_init zeros32) \<noteq> r1_chain_key receiver_at_1"
proof -
  have a: "r1_step (SymmetricRatchetReceiver_init zeros32) = 0"
    by (simp add: SymmetricRatchetReceiver_init_def)
  have b: "r1_step receiver_at_1 = 1"
    by (simp add: receiver_at_1_def)
  have c: "r1_chain_key (SymmetricRatchetReceiver_init zeros32) \<noteq> r1_chain_key receiver_at_1"
    by (simp add: SymmetricRatchetReceiver_init_def receiver_at_1_def zeros32_def numeral_eq_Suc)
  from toy_forged_v1 a b c show ?thesis by blast
qed

lemma update_fresh_append: "k \<notin> fst ` set al \<Longrightarrow> AList.update k v al = al @ [(k, v)]"
  by (induction al) auto

lemma advance_until_length:
  "length (r2_skipped_keys (snd (advance_until env st m blob)))
     \<le> length (r2_skipped_keys st) + nat (m - r2_step st - 1)"
proof (induction env st m blob rule: advance_until.induct)
  case (1 env st m blob)
  obtain key st1 where adv: "advance_chain env st = (key, st1)" by (cases "advance_chain env st")
  have s1: "st1 = snd (advance_chain env st)" using adv by simp
  have f1: "r2_skipped_keys st1 = r2_skipped_keys st" "r2_step st1 = r2_step st + 1"
    by (simp_all add: s1)
  show ?case
  proof (cases "r2_step st < m")
    case False
    then show ?thesis by (simp add: advance_until_not_ahead)
  next
    case lt: True
    show ?thesis
    proof (cases "r2_step st1 = m")
      case True
      then show ?thesis using lt adv
        by (subst advance_until.simps) (simp add: Let_def f1)
    next
      case False
      let ?st2 = "st1\<lparr>r2_skipped_keys := AList.update (r2_step st1) key (r2_skipped_keys st1)\<rparr>"
      have eq: "advance_until env st m blob = advance_until env ?st2 m blob"
        using lt adv False by (subst advance_until.simps) simp
      have a: "length (r2_skipped_keys ?st2) \<le> Suc (length (r2_skipped_keys st))"
        using update_length_le [of "r2_step st1" key "r2_skipped_keys st"] by (simp add: f1)
      have b: "Suc (nat (m - r2_step ?st2 - 1)) = nat (m - r2_step st - 1)"
        using lt False by (simp add: f1)
      from "1.IH" [OF lt refl adv [symmetric] False] a b show ?thesis
        unfolding eq by linarith
    qed
  qed
qed

lemma advance_until_fresh:
  "r2_step st < m \<Longrightarrow> cache_fresh env (snd (advance_until env st m blob))"
proof (induction env st m blob rule: advance_until.induct)
  case (1 env st m blob)
  obtain key st1 where adv: "advance_chain env st = (key, st1)" by (cases "advance_chain env st")
  have s1: "st1 = snd (advance_chain env st)" using adv by simp
  show ?case
  proof (cases "r2_step st1 = m")
    case True
    then show ?thesis using "1.prems" adv
      by (subst advance_until.simps) (simp add: Let_def cache_fresh_refresh)
  next
    case False
    let ?st2 = "st1\<lparr>r2_skipped_keys := AList.update (r2_step st1) key (r2_skipped_keys st1)\<rparr>"
    have eq: "advance_until env st m blob = advance_until env ?st2 m blob"
      using "1.prems" adv False by (subst advance_until.simps) simp
    have "r2_step st1 = r2_step st + 1" by (simp add: s1)
    then have lt: "r2_step ?st2 < m" using "1.prems" False by simp
    show ?thesis unfolding eq by (rule "1.IH" [OF "1.prems" refl adv [symmetric] False lt])
  qed
qed

lemma v2_decrypt_fresh:
  assumes "cache_fresh env st"
  shows "cache_fresh env (snd (QuantumDoubleRatchetReceiver_decrypt env st package))"
proof (cases "length package < 16 + NONCE_SIZE + TAG_SIZE")
  case True
  then show ?thesis using assms by (simp add: QuantumDoubleRatchetReceiver_decrypt_def)
next
  case len: False
  show ?thesis
  proof (cases "map_of (r2_lookup_cache st) (take 16 package)")
    case None
    then show ?thesis using assms len by (simp add: QuantumDoubleRatchetReceiver_decrypt_def Let_def)
  next
    case (Some e)
    obtain key seq where e: "e = (key, seq)" by (cases e)
    show ?thesis
    proof (cases "map_of (r2_skipped_keys st) seq = None")
      case False
      then show ?thesis using len Some e
        by (simp add: QuantumDoubleRatchetReceiver_decrypt_def Let_def cache_fresh_refresh)
    next
      case True
      then have d: "QuantumDoubleRatchetReceiver_decrypt env st package
          = advance_until env st seq (drop 16 package)"
        using len Some e by (simp add: QuantumDoubleRatchetReceiver_decrypt_def Let_def)
      show ?thesis
      proof (cases "r2_step st < seq")
        case True
        then show ?thesis unfolding d by (rule advance_until_fresh)
      next
        case False
        then show ?thesis unfolding d using assms by (simp add: advance_until_not_ahead)
      qed
    qed
  qed
qed

lemma v2_decrypt_length:
  assumes fresh: "cache_fresh env st"
  shows "length (r2_skipped_keys (snd (QuantumDoubleRatchetReceiver_decrypt env st package)))
           \<le> length (r2_skipped_keys st) + (MAX_SKIP - 1)"
proof (cases "length package < 16 + NONCE_SIZE + TAG_SIZE")
  case True
  then show ?thesis by (simp add: QuantumDoubleRatchetReceiver_decrypt_def)
next
  case len: False
  show ?thesis
  proof (cases "map_of (r2_lookup_cache st) (take 16 package)")
    case None
    then show ?thesis using len by (simp add: QuantumDoubleRatchetReceiver_decrypt_def Let_def)
  next
    case (Some e)
    obtain key seq where e: "e = (key, seq)" by (cases e)
    show ?thesis
    proof (cases "map_of (r2_skipped_keys st) seq = None")
      case False
      then show ?thesis using len Some e delete_length_le [of seq "r2_skipped_keys st"]
        by (simp add: QuantumDoubleRatchetReceiver_decrypt_def Let_def)
    next
      case True
      then have d: "QuantumDoubleRatchetReceiver_decrypt env st package
          = advance_until env st seq (drop 16 package)"
        using len Some e by (simp add: QuantumDoubleRatchetReceiver_decrypt_def Let_def)
      have "map_of (r2_lookup_cache (refresh_lookup_cache env st)) (take 16 package) = Some (key, seq)"
        using fresh Some e by (simp add: cache_fresh_def)
      from cache_entry_sound [OF this True]
      have "nat (seq - r2_step st - 1) \<le> MAX_SKIP - 1" by auto
      with advance_until_length [of env st seq "drop 16 package"]
      show ?thesis unfolding d by linarith
    qed
  qed
qed

lemma refresh_root_fresh: "cache_fresh env (QuantumDoubleRatchetReceiver_refresh_root env st e)"
  by (simp add: QuantumDoubleRatchetReceiver_refresh_root_def Let_def cache_fresh_refresh)

lemma refresh_root_skipped: "r2_skipped_keys (QuantumDoubleRatchetReceiver_refresh_root env st e) = []"
  by (simp add: QuantumDoubleRatchetReceiver_refresh_root_def Let_def)

lemma init_fresh: "cache_fresh env (QuantumDoubleRatchetReceiver_init env k)"
  by (simp add: QuantumDoubleRatchetReceiver_init_def cache_fresh_refresh)

lemma v2_run_length:
  "cache_fresh env st \<Longrightarrow>
     length (r2_skipped_keys (v2_run env st calls))
       \<le> length (r2_skipped_keys st) + (MAX_SKIP - 1) * length calls"
proof (induction calls arbitrary: st)
  case Nil
  show ?case by simp
next
  case (Cons c calls)
  show ?case
  proof (cases c)
    case (Decrypt package)
    let ?st1 = "snd (QuantumDoubleRatchetReceiver_decrypt env st package)"
    from Cons.IH [OF v2_decrypt_fresh [OF Cons.prems, of package]]
      v2_decrypt_length [OF Cons.prems, of package]
    show ?thesis by (simp add: Decrypt)
  next
    case (RefreshRoot e)
    from Cons.IH [OF refresh_root_fresh [of env st e]]
    show ?thesis by (simp add: RefreshRoot refresh_root_skipped)
  qed
qed

lemma advance_until_on_chain:
  assumes "r2_chain_key st = chain_key_at env k n" and "r2_step st = int n" and "int n < m"
    and "\<forall>j \<in> fst ` set (r2_skipped_keys st). j \<le> int n"
  shows "snd (advance_until env st m blob) =
           refresh_lookup_cache env
             (st\<lparr>r2_chain_key := chain_key_at env k (nat m), r2_step := m,
                 r2_skipped_keys := r2_skipped_keys st @
                   map (\<lambda>j. (int j, message_key_at env k j)) [Suc n..<nat m]\<rparr>)"
  using assms
proof (induction env st m blob arbitrary: n rule: advance_until.induct)
  case (1 env st m blob)
  let ?key = "message_key_at env k (Suc n)"
  let ?st1 = "st\<lparr>r2_chain_key := chain_key_at env k (Suc n), r2_step := int n + 1\<rparr>"
  have adv: "advance_chain env st = (?key, ?st1)"
    using "1.prems" by (simp add: advance_chain_def Let_def message_key_at_Suc)
  have lt: "r2_step st < m" using "1.prems" by simp
  show ?case
  proof (cases "r2_step ?st1 = m")
    case True
    then have m: "nat m = Suc n" by auto
    have "advance_until env st m blob =
        (unpack env (trial_decrypt env ?key blob), refresh_lookup_cache env ?st1)"
      using lt adv True by (subst advance_until.simps) (simp add: Let_def)
    moreover have "?st1 = st\<lparr>r2_chain_key := chain_key_at env k (nat m), r2_step := m,
                 r2_skipped_keys := r2_skipped_keys st @
                   map (\<lambda>j. (int j, message_key_at env k j)) [Suc n..<nat m]\<rparr>"
      using True by (simp add: m)
    ultimately show ?thesis by simp
  next
    case False
    let ?st2 = "?st1\<lparr>r2_skipped_keys := AList.update (r2_step ?st1) ?key (r2_skipped_keys ?st1)\<rparr>"
    have eq: "advance_until env st m blob = advance_until env ?st2 m blob"
      using lt adv False by (subst advance_until.simps) simp
    have fresh: "int n + 1 \<notin> fst ` set (r2_skipped_keys st)"
      using "1.prems"(4) by fastforce
    have sk2: "r2_skipped_keys ?st2 = r2_skipped_keys st @ [(int (Suc n), ?key)]"
      using update_fresh_append [OF fresh, of ?key] by simp
    have p1: "r2_chain_key ?st2 = chain_key_at env k (Suc n)" by simp
    have p2: "r2_step ?st2 = int (Suc n)" by simp
    have p3: "int (Suc n) < m" using "1.prems"(3) False by simp
    have p4: "\<forall>j \<in> fst ` set (r2_skipped_keys ?st2). j \<le> int (Suc n)"
      unfolding sk2 using "1.prems"(4) by fastforce
    have up: "[Suc n..<nat m] = Suc n # [Suc (Suc n)..<nat m]"
      using p3 by (simp add: upt_conv_Cons)
    have "snd (advance_until env ?st2 m blob) =
           refresh_lookup_cache env
             (?st2\<lparr>r2_chain_key := chain_key_at env k (nat m), r2_step := m,
                 r2_skipped_keys := r2_skipped_keys ?st2 @
                   map (\<lambda>j. (int j, message_key_at env k j)) [Suc (Suc n)..<nat m]\<rparr>)"
      by (rule "1.IH" [OF lt refl adv [symmetric] False p1 p2 p3 p4])
    then show ?thesis unfolding eq sk2 up by simp
  qed
qed

lemma toy_jump_52:
  "r2_skipped_keys (snd (QuantumDoubleRatchetReceiver_decrypt toy
       (QuantumDoubleRatchetReceiver_init toy zeros32) (beacon_at toy zeros32 52 @ replicate 28 0)))
     = map (\<lambda>j. (int j, message_key_at toy zeros32 j)) [1..<52]"
proof -
  define B where "B = beacon_at toy zeros32 52"
  let ?st = "QuantumDoubleRatchetReceiver_init toy zeros32"
  have lb: "length B = 16" by (simp add: B_def toy_beacon_at)
  have hit: "map_of (r2_lookup_cache ?st) B = Some (message_key_at toy zeros32 52, 52)"
    unfolding B_def using toy_init_lookup [of 52] by simp
  have d: "QuantumDoubleRatchetReceiver_decrypt toy ?st (B @ replicate 28 0)
      = advance_until toy ?st 52 (replicate 28 0)"
    by (simp add: QuantumDoubleRatchetReceiver_decrypt_def Let_def lb hit NONCE_SIZE_def TAG_SIZE_def)
  have "snd (advance_until toy ?st 52 (replicate 28 0)) =
           refresh_lookup_cache toy
             (?st\<lparr>r2_chain_key := chain_key_at toy zeros32 (nat 52), r2_step := 52,
                 r2_skipped_keys := r2_skipped_keys ?st @
                   map (\<lambda>j. (int j, message_key_at toy zeros32 j)) [Suc 0..<nat 52]\<rparr>)"
    by (rule advance_until_on_chain) simp_all
  then have "r2_skipped_keys (snd (QuantumDoubleRatchetReceiver_decrypt toy ?st (B @ replicate 28 0)))
      = map (\<lambda>j. (int j, message_key_at toy zeros32 j)) [1..<52]"
    unfolding d by simp
  then show ?thesis unfolding B_def .
qed

text \<open>
  C8 as the code has it. \<open>MAX_CACHE\<close> is never read. What bounds the skipped keys of the
  zero-metadata receiver is the lookahead window: in a state whose lookup cache is fresh
  (the constructor, \<open>refresh_root\<close> and \<open>decrypt\<close> leave the receiver in such a state) a
  call of \<open>decrypt\<close> adds at most \<open>MAX_SKIP - 1\<close> skipped keys, \<open>refresh_root\<close> leaves
  none, and so after any sequence of calls on a new receiver there are at most
  \<open>MAX_SKIP - 1\<close> skipped keys for each call.
\<close>

theorem skipped_keys_grow_by_window:
  fixes env :: "'w lib"
  shows
   "(cache_fresh env st \<longrightarrow>
       length (r2_skipped_keys (snd (QuantumDoubleRatchetReceiver_decrypt env st package)))
         \<le> length (r2_skipped_keys st) + (MAX_SKIP - 1) \<and>
       cache_fresh env (snd (QuantumDoubleRatchetReceiver_decrypt env st package))) \<and>
    r2_skipped_keys (QuantumDoubleRatchetReceiver_refresh_root env st new_entropy) = [] \<and>
    cache_fresh env (QuantumDoubleRatchetReceiver_refresh_root env st new_entropy) \<and>
    cache_fresh env (QuantumDoubleRatchetReceiver_init env k) \<and>
    length (r2_skipped_keys (v2_run env (QuantumDoubleRatchetReceiver_init env k) calls))
      \<le> (MAX_SKIP - 1) * length calls"
  using v2_decrypt_length [of env st package] v2_decrypt_fresh [of env st package]
    refresh_root_skipped [of env st new_entropy] refresh_root_fresh [of env st new_entropy]
    init_fresh [of env k] v2_run_length [OF init_fresh, of env k calls]
  by simp

theorem skipped_keys_grow_by_window_witness:
  "cache_fresh toy (QuantumDoubleRatchetReceiver_init toy zeros32) \<and>
   length (r2_skipped_keys (snd (QuantumDoubleRatchetReceiver_decrypt toy
       (QuantumDoubleRatchetReceiver_init toy zeros32) (beacon_at toy zeros32 52 @ replicate 28 0))))
     \<le> length (r2_skipped_keys (QuantumDoubleRatchetReceiver_init toy zeros32)) + (MAX_SKIP - 1) \<and>
   cache_fresh toy (snd (QuantumDoubleRatchetReceiver_decrypt toy
       (QuantumDoubleRatchetReceiver_init toy zeros32) (beacon_at toy zeros32 52 @ replicate 28 0)))"
  using skipped_keys_grow_by_window [where env = toy
      and st = "QuantumDoubleRatchetReceiver_init toy zeros32"
      and package = "beacon_at toy zeros32 52 @ replicate 28 0" and k = zeros32]
  by blast

text \<open>C8 as stated fails: a new receiver that is given a package with the beacon of step
  52 holds the 51 message keys of the steps before it.\<close>

theorem more_than_max_cache_counterexample:
  "length (r2_skipped_keys (snd (QuantumDoubleRatchetReceiver_decrypt toy
       (QuantumDoubleRatchetReceiver_init toy zeros32) (beacon_at toy zeros32 52 @ replicate 28 0))))
     = 51 \<and> MAX_CACHE < 51"
  by (simp add: toy_jump_52 MAX_CACHE_def)

lemma to_bytes4_ok: "n < 2 ^ 32 \<Longrightarrow> \<exists>bs. to_bytes4 n = Inr bs \<and> length bs = 4"
  by (simp add: to_bytes4_def)

lemma to_bytes4_overflow: "\<not> n < 2 ^ 32 \<Longrightarrow> to_bytes4 n = Inl OverflowError"
  by (simp add: to_bytes4_def)



lemma v2_encrypt_fits:
  assumes hk: "hkdf_len env" and ur: "urandom_len env" and gc: "gcm_correct env" and gl: "gcm_len env"
    and fits: "8 + length (fst (json_header env (s2_sender_id st) (s2_step st + 1) w))
                 + length plaintext \<le> FIXED_PAYLOAD_SIZE"
  shows "\<exists>nonce tag ct.
           fst (QuantumDoubleRatchet_encrypt env st plaintext w)
             = Inr (beacon_of env (fst (QuantumDoubleRatchet_advance_message_key env st))
                    @ nonce @ tag @ ct) \<and>
           length (beacon_of env (fst (QuantumDoubleRatchet_advance_message_key env st))) = 16 \<and>
           length nonce = NONCE_SIZE \<and> length tag = TAG_SIZE \<and> length ct = FIXED_PAYLOAD_SIZE"
proof -
  let ?mk = "HKDF env (s2_chain_key st) AES_KEY_SIZE None RATCHET_INFO_MSG"
  obtain header w1 where h: "json_header env (s2_sender_id st) (s2_step st + 1) w = (header, w1)"
    by (cases "json_header env (s2_sender_id st) (s2_step st + 1) w")
  have f: "8 + length header + length plaintext \<le> 512"
    using fits h by (simp add: FIXED_PAYLOAD_SIZE_def)
  obtain ml where ml: "to_bytes4 (length plaintext) = Inr ml" "length ml = 4"
    using to_bytes4_ok [of "length plaintext"] f by auto
  obtain hl where hl: "to_bytes4 (length header) = Inr hl" "length hl = 4"
    using to_bytes4_ok [of "length header"] f by auto
  let ?content = "hl @ header @ ml @ plaintext"
  have lc: "length ?content = 8 + length header + length plaintext" using ml hl by simp
  obtain padding w2 where p: "urandom env (512 - length ?content) w1 = (padding, w2)"
    by (cases "urandom env (512 - length ?content) w1")
  have lp: "length padding = 512 - length ?content"
    using ur p by (metis fst_conv urandom_len_def)
  obtain nonce w3 where n: "urandom env NONCE_SIZE w2 = (nonce, w3)"
    by (cases "urandom env NONCE_SIZE w2")
  have ln: "length nonce = NONCE_SIZE" using ur n by (metis fst_conv urandom_len_def)
  let ?key = "HKDF env ?mk AES_KEY_SIZE None HKDF_INFO_V2"
  obtain ct tag where g: "gcm_encrypt env ?key nonce [] (?content @ padding) = (ct, tag)"
    by (cases "gcm_encrypt env ?key nonce [] (?content @ padding)")
  have lt: "length tag = TAG_SIZE" using gc g by (metis snd_conv gcm_correct_def)
  have "length ct = length (?content @ padding)" using gl g by (metis fst_conv gcm_len_def)
  then have lct: "length ct = FIXED_PAYLOAD_SIZE"
    using lp lc f by (simp add: FIXED_PAYLOAD_SIZE_def)
  have lb: "length (beacon_of env ?mk) = 16" using hk by (simp add: beacon_of_def hkdf_len_def)
  have mk: "fst (QuantumDoubleRatchet_advance_message_key env st) = ?mk"
    by (simp add: QuantumDoubleRatchet_advance_message_key_def Let_def)
  have le: "\<not> FIXED_PAYLOAD_SIZE < length ?content" using lc f by (simp add: FIXED_PAYLOAD_SIZE_def)
  have "fst (QuantumDoubleRatchet_encrypt env st plaintext w) = Inr (beacon_of env ?mk @ nonce @ tag @ ct)"
    using h ml(1) hl(1) le p n g
    by (simp add: QuantumDoubleRatchet_encrypt_def QuantumDoubleRatchet_advance_message_key_def
        Let_def beacon_of_def FIXED_PAYLOAD_SIZE_def)
  with lb ln lt lct show ?thesis unfolding mk by blast
qed





lemma unat_of_nat_byte: "unat (of_nat n :: byte) = n mod 256"
  by (simp add: unat_of_nat)

lemma split4:
  fixes n :: nat
  assumes "n < 2 ^ 32"
  shows "((n div 2 ^ 24 mod 256 * 256 + n div 2 ^ 16 mod 256) * 256 + n div 2 ^ 8 mod 256) * 256
          + n mod 256 = n"
proof -
  have a: "n div 2 ^ 24 mod 256 = n div 2 ^ 24"
    using assms by (simp add: less_mult_imp_div_less)
  have b: "n div 2 ^ 16 = n div 2 ^ 24 * 256 + n div 2 ^ 16 mod 256"
    using div_mult_mod_eq [of "n div 2 ^ 16" 256] by (simp add: div_mult2_eq [symmetric])
  have c: "n div 2 ^ 8 = n div 2 ^ 16 * 256 + n div 2 ^ 8 mod 256"
    using div_mult_mod_eq [of "n div 2 ^ 8" 256] by (simp add: div_mult2_eq [symmetric])
  have d: "n = n div 2 ^ 8 * 256 + n mod 256"
    using div_mult_mod_eq [of n 256] by simp
  show ?thesis using a b c d by presburger
qed

lemma from_bytes_big_to_bytes4:
  assumes "to_bytes4 n = Inr bs"
  shows "from_bytes_big bs = n \<and> length bs = 4"
proof -
  have lt: "n < 2 ^ 32" using assms by (simp add: to_bytes4_def split: if_splits)
  have bs: "bs = [of_nat (n div 2 ^ 24), of_nat (n div 2 ^ 16), of_nat (n div 2 ^ 8), of_nat n]"
    using assms lt by (simp add: to_bytes4_def)
  have "from_bytes_big bs =
      ((n div 2 ^ 24 mod 256 * 256 + n div 2 ^ 16 mod 256) * 256 + n div 2 ^ 8 mod 256) * 256
          + n mod 256"
    unfolding bs from_bytes_big_def by (simp only: foldl.simps unat_of_nat_byte) simp
  then have "from_bytes_big bs = n" by (rule trans [OF _ split4 [OF lt]])
  moreover have "length bs = 4" unfolding bs by simp
  ultimately show ?thesis by (rule conjI)
qed

lemma unpack_content:
  assumes hl: "to_bytes4 (length header) = Inr hl" and ml: "to_bytes4 (length pt) = Inr ml"
    and ok: "json_header_ok env header"
  shows "unpack env (Some (hl @ header @ ml @ pt @ padding)) = Inr pt"
proof -
  from from_bytes_big_to_bytes4 [OF hl] have h: "from_bytes_big hl = length header" "length hl = 4"
    by simp_all
  from from_bytes_big_to_bytes4 [OF ml] have m: "from_bytes_big ml = length pt" "length ml = 4"
    by simp_all
  show ?thesis
    by (simp add: unpack_def Let_def h m ok)
qed

lemma v2_encrypt_state:
  "s2_chain_key (fst (snd (QuantumDoubleRatchet_encrypt env st pt w)))
     = HKDF env (s2_chain_key st) AES_KEY_SIZE None RATCHET_INFO_CHAIN \<and>
   s2_step (fst (snd (QuantumDoubleRatchet_encrypt env st pt w))) = s2_step st + 1 \<and>
   s2_sender_id (fst (snd (QuantumDoubleRatchet_encrypt env st pt w))) = s2_sender_id st"
  by (simp add: QuantumDoubleRatchet_encrypt_def QuantumDoubleRatchet_advance_message_key_def
      Let_def split: prod.splits sum.splits)

lemma v2_encrypt_honest:
  assumes hk: "hkdf_len env" and ur: "urandom_len env" and gc: "gcm_correct env"
    and hp: "header_parses env"
    and ck: "s2_chain_key st = chain_key_at env k n"
    and ok: "fst (QuantumDoubleRatchet_encrypt env st pt w) = Inr pkg"
  shows "honest_v2 env k (Suc n) pt pkg"
proof -
  let ?mk = "message_key_at env k (Suc n)"
  have mk: "HKDF env (s2_chain_key st) AES_KEY_SIZE None RATCHET_INFO_MSG = ?mk"
    by (simp add: ck message_key_at_def)
  obtain header w1 where h: "json_header env (s2_sender_id st) (s2_step st + 1) w = (header, w1)"
    by (cases "json_header env (s2_sender_id st) (s2_step st + 1) w")
  have hok: "json_header_ok env header" using hp h by (metis fst_conv header_parses_def)
  obtain ml where ml: "to_bytes4 (length pt) = Inr ml"
    using ok h
    by (cases "to_bytes4 (length pt)")
       (auto simp: QuantumDoubleRatchet_encrypt_def QuantumDoubleRatchet_advance_message_key_def Let_def)
  obtain hl where hl: "to_bytes4 (length header) = Inr hl"
    using ok h ml
    by (cases "to_bytes4 (length header)")
       (auto simp: QuantumDoubleRatchet_encrypt_def QuantumDoubleRatchet_advance_message_key_def Let_def)
  let ?content = "hl @ header @ ml @ pt"
  have le: "\<not> FIXED_PAYLOAD_SIZE < length ?content"
    using ok h ml hl
    by (auto simp: QuantumDoubleRatchet_encrypt_def QuantumDoubleRatchet_advance_message_key_def Let_def
        split: if_splits)
  obtain padding w2 where p: "urandom env (FIXED_PAYLOAD_SIZE - length ?content) w1 = (padding, w2)"
    by (cases "urandom env (FIXED_PAYLOAD_SIZE - length ?content) w1")
  obtain nonce w3 where n: "urandom env NONCE_SIZE w2 = (nonce, w3)"
    by (cases "urandom env NONCE_SIZE w2")
  have ln: "length nonce = 12" using ur n by (metis NONCE_SIZE_def fst_conv urandom_len_def)
  let ?key = "HKDF env ?mk AES_KEY_SIZE None HKDF_INFO_V2"
  obtain ct tag where g: "gcm_encrypt env ?key nonce [] (?content @ padding) = (ct, tag)"
    by (cases "gcm_encrypt env ?key nonce [] (?content @ padding)")
  have lt: "length tag = 16" using gc g by (metis TAG_SIZE_def snd_conv gcm_correct_def)
  have dec: "gcm_decrypt env ?key nonce [] ct tag = Some (?content @ padding)"
    using gc g by (metis fst_conv snd_conv gcm_correct_def)
  have lb: "length (beacon_at env k (Suc n)) = 16"
    using hk by (simp add: beacon_at_def beacon_of_def hkdf_len_def)
  have "fst (QuantumDoubleRatchet_encrypt env st pt w) = Inr (beacon_at env k (Suc n) @ nonce @ tag @ ct)"
    using h ml hl le p n g
    by (simp add: QuantumDoubleRatchet_encrypt_def QuantumDoubleRatchet_advance_message_key_def
        Let_def mk beacon_at_def beacon_of_def)
  with ok have pkg: "pkg = beacon_at env k (Suc n) @ nonce @ tag @ ct" by simp
  have td: "trial_decrypt env ?mk (nonce @ tag @ ct) = Some (hl @ header @ ml @ pt @ padding)"
    using dec by (simp add: trial_decrypt_def Let_def NONCE_SIZE_def TAG_SIZE_def ln lt)
  have up: "unpack env (Some (hl @ header @ ml @ pt @ padding)) = Inr pt"
    by (rule unpack_content [OF hl ml hok])
  show ?thesis
    unfolding honest_v2_def pkg
    by (simp add: lb ln lt NONCE_SIZE_def TAG_SIZE_def td up)
qed

lemma v2_send_all_honest:
  assumes hk: "hkdf_len env" and ur: "urandom_len env" and gc: "gcm_correct env"
    and hp: "header_parses env"
  shows "s2_chain_key st = chain_key_at env k n \<Longrightarrow>
         fst (v2_send_all env st w ms) = map Inr pkts \<Longrightarrow>
         length pkts = length ms \<and>
         (\<forall>i < length ms. honest_v2 env k (n + i + 1) (ms ! i) (pkts ! i))"
proof (induction ms arbitrary: st w n pkts)
  case Nil
  then show ?case by simp
next
  case (Cons m ms)
  obtain r st1 w1 where e: "QuantumDoubleRatchet_encrypt env st m w = (r, st1, w1)"
    by (cases "QuantumDoubleRatchet_encrypt env st m w")
  obtain rs st2 w2 where s: "v2_send_all env st1 w1 ms = (rs, st2, w2)"
    by (cases "v2_send_all env st1 w1 ms")
  have all: "r # rs = map Inr pkts" using Cons.prems(2) e s by simp
  then obtain p ps where pkts: "pkts = p # ps" and r: "r = Inr p" and rs: "rs = map Inr ps"
    by (cases pkts) auto
  have h0: "honest_v2 env k (Suc n) m p"
    by (rule v2_encrypt_honest [OF hk ur gc hp Cons.prems(1), where w = w]) (simp add: e r)
  have ck1: "s2_chain_key st1 = chain_key_at env k (Suc n)"
    using v2_encrypt_state [of env st m w] e Cons.prems(1) by simp
  have "fst (v2_send_all env st1 w1 ms) = map Inr ps" using s rs by simp
  from Cons.IH [OF ck1 this]
  have l: "length ps = length ms"
    and hs: "\<forall>i < length ms. honest_v2 env k (Suc n + i + 1) (ms ! i) (ps ! i)"
    by simp_all
  have "\<forall>i < length (m # ms). honest_v2 env k (n + i + 1) ((m # ms) ! i) (pkts ! i)"
  proof (intro allI impI)
    fix i assume i: "i < length (m # ms)"
    show "honest_v2 env k (n + i + 1) ((m # ms) ! i) (pkts ! i)"
    proof (cases i)
      case 0
      then show ?thesis using h0 pkts by simp
    next
      case (Suc i')
      then show ?thesis using hs i pkts by simp
    qed
  qed
  then show ?case using l pkts by simp
qed

lemma on_chain_refresh:
  assumes "0 \<le> r2_step st" and "r2_chain_key st = chain_key_at env k (nat (r2_step st))"
    and "distinct (map fst (r2_skipped_keys st))"
    and "\<forall>(j, key) \<in> set (r2_skipped_keys st).
           1 \<le> j \<and> j \<le> r2_step st \<and> key = message_key_at env k (nat j)"
  shows "r2_on_chain env k (refresh_lookup_cache env st)"
  using assms by (auto simp: r2_on_chain_def cache_fresh_refresh list_all_iff)

lemma v2_decrypt_skipped:
  assumes oc: "r2_on_chain env k st"
    and bd: "beacons_distinct env k (nat (r2_step st) + MAX_SKIP)"
    and sk: "map_of (r2_skipped_keys st) (int j) \<noteq> None"
    and h: "honest_v2 env k j m pkg"
  shows "QuantumDoubleRatchetReceiver_decrypt env st pkg =
           (Inr m, refresh_lookup_cache env
                     (st\<lparr>r2_skipped_keys := AList.delete (int j) (r2_skipped_keys st)\<rparr>))"
proof -
  have len: "\<not> length pkg < 16 + NONCE_SIZE + TAG_SIZE" and b: "take 16 pkg = beacon_at env k j"
    and u: "unpack env (trial_decrypt env (message_key_at env k j) (drop 16 pkg)) = Inr m"
    using h by (simp_all add: honest_v2_def)
  have hit: "map_of (r2_lookup_cache st) (take 16 pkg) = Some (message_key_at env k j, int j)"
    unfolding b using on_chain_lookup [OF oc bd] sk by blast
  show ?thesis
    using len hit sk u by (simp add: QuantumDoubleRatchetReceiver_decrypt_def Let_def)
qed

lemma v2_decrypt_ahead:
  assumes oc: "r2_on_chain env k st"
    and bd: "beacons_distinct env k (nat (r2_step st) + MAX_SKIP)"
    and w: "r2_step st < int j" "int j \<le> r2_step st + int MAX_SKIP"
    and h: "honest_v2 env k j m pkg"
  shows "QuantumDoubleRatchetReceiver_decrypt env st pkg =
           (Inr m, refresh_lookup_cache env
                     (st\<lparr>r2_chain_key := chain_key_at env k j, r2_step := int j,
                         r2_skipped_keys := r2_skipped_keys st @
                           map (\<lambda>i. (int i, message_key_at env k i)) [Suc (nat (r2_step st))..<j]\<rparr>))"
proof -
  let ?n = "nat (r2_step st)"
  have s0: "0 \<le> r2_step st" and ck: "r2_chain_key st = chain_key_at env k ?n"
    and keys: "\<forall>(i, key) \<in> set (r2_skipped_keys st). 1 \<le> i \<and> i \<le> r2_step st"
    using oc by (auto simp: r2_on_chain_def list_all_iff)
  have sn: "r2_step st = int ?n" using s0 by simp
  have le: "\<forall>i \<in> fst ` set (r2_skipped_keys st). i \<le> int ?n"
    using keys s0 by fastforce
  have nsk: "map_of (r2_skipped_keys st) (int j) = None"
  proof (rule ccontr)
    assume "map_of (r2_skipped_keys st) (int j) \<noteq> None"
    then have "int j \<in> fst ` set (r2_skipped_keys st)" by (simp add: map_of_eq_None_iff)
    with le w(1) s0 show False by fastforce
  qed
  have len: "\<not> length pkg < 16 + NONCE_SIZE + TAG_SIZE" and b: "take 16 pkg = beacon_at env k j"
    and u: "unpack env (trial_decrypt env (message_key_at env k j) (drop 16 pkg)) = Inr m"
    using h by (simp_all add: honest_v2_def)
  have hit: "map_of (r2_lookup_cache st) (take 16 pkg) = Some (message_key_at env k j, int j)"
    unfolding b using on_chain_lookup [OF oc bd] w by blast
  have d: "QuantumDoubleRatchetReceiver_decrypt env st pkg = advance_until env st (int j) (drop 16 pkg)"
    using len hit nsk by (simp add: QuantumDoubleRatchetReceiver_decrypt_def Let_def)
  have lt: "int ?n < int j" using w(1) s0 by simp
  have i: "?n + nat (int j - r2_step st - 1) + 1 = j" using w(1) s0 by linarith
  have "real_key env st (nat (int j - r2_step st - 1)) = message_key_at env k j"
    using real_key_on_chain [OF ck, of "nat (int j - r2_step st - 1)"] i by simp
  with advance_until_real_key [OF w(1), of env "drop 16 pkg"] u
  have f: "fst (advance_until env st (int j) (drop 16 pkg)) = Inr m" by simp
  have s: "snd (advance_until env st (int j) (drop 16 pkg)) =
           refresh_lookup_cache env
             (st\<lparr>r2_chain_key := chain_key_at env k (nat (int j)), r2_step := int j,
                 r2_skipped_keys := r2_skipped_keys st @
                   map (\<lambda>i. (int i, message_key_at env k i)) [Suc ?n..<nat (int j)]\<rparr>)"
    by (rule advance_until_on_chain [OF ck sn lt le])
  show ?thesis
    unfolding d using f s by (simp add: prod_eq_iff)
qed

lemma v2_decrypt_step:
  assumes oc: "r2_on_chain env k st"
    and bd: "beacons_distinct env k (nat (r2_step st) + MAX_SKIP)"
    and keys: "fst ` set (r2_skipped_keys st) = {i. 1 \<le> i \<and> i \<le> r2_step st} - int ` D"
    and dn: "\<forall>d \<in> D. int d \<le> r2_step st"
    and j: "1 \<le> j" "j \<notin> D" "int j \<le> r2_step st + int MAX_SKIP"
    and h: "honest_v2 env k j m pkg"
  shows "fst (QuantumDoubleRatchetReceiver_decrypt env st pkg) = Inr m \<and>
         r2_on_chain env k (snd (QuantumDoubleRatchetReceiver_decrypt env st pkg)) \<and>
         r2_step (snd (QuantumDoubleRatchetReceiver_decrypt env st pkg)) = max (r2_step st) (int j) \<and>
         fst ` set (r2_skipped_keys (snd (QuantumDoubleRatchetReceiver_decrypt env st pkg)))
           = {i. 1 \<le> i \<and> i \<le> max (r2_step st) (int j)} - int ` insert j D \<and>
         (\<forall>d \<in> insert j D. int d \<le> max (r2_step st) (int j))"
proof -
  let ?n = "nat (r2_step st)"
  have s0: "0 \<le> r2_step st" and ck: "r2_chain_key st = chain_key_at env k ?n"
    and dk: "distinct (map fst (r2_skipped_keys st))"
    and ent: "\<forall>(i, key) \<in> set (r2_skipped_keys st).
                1 \<le> i \<and> i \<le> r2_step st \<and> key = message_key_at env k (nat i)"
    using oc by (auto simp: r2_on_chain_def list_all_iff)
  show ?thesis
  proof (cases "int j \<le> r2_step st")
    case True
    have "int j \<notin> int ` D" using j(2) by auto
    then have "int j \<in> fst ` set (r2_skipped_keys st)"
      unfolding keys using True j(1) by simp
    then have sk: "map_of (r2_skipped_keys st) (int j) \<noteq> None" by (simp add: map_of_eq_None_iff)
    let ?st1 = "st\<lparr>r2_skipped_keys := AList.delete (int j) (r2_skipped_keys st)\<rparr>"
    have d: "QuantumDoubleRatchetReceiver_decrypt env st pkg = (Inr m, refresh_lookup_cache env ?st1)"
      by (rule v2_decrypt_skipped [OF oc bd sk h])
    have sub: "set (AList.delete (int j) (r2_skipped_keys st)) \<subseteq> set (r2_skipped_keys st)"
      by (auto simp: AList.delete_eq)
    have oc1: "r2_on_chain env k (refresh_lookup_cache env ?st1)"
    proof (rule on_chain_refresh)
      show "0 \<le> r2_step ?st1" using s0 by simp
      show "r2_chain_key ?st1 = chain_key_at env k (nat (r2_step ?st1))" using ck by simp
      show "distinct (map fst (r2_skipped_keys ?st1))" using dk by (simp add: distinct_delete)
      show "\<forall>(j, key) \<in> set (r2_skipped_keys ?st1).
           1 \<le> j \<and> j \<le> r2_step ?st1 \<and> key = message_key_at env k (nat j)"
        using ent sub by auto
    qed
    have k1: "fst ` set (AList.delete (int j) (r2_skipped_keys st))
        = fst ` set (r2_skipped_keys st) - {int j}"
      using delete_keys [of "int j" "r2_skipped_keys st"]
      by (metis set_map set_removeAll)
    have m: "max (r2_step st) (int j) = r2_step st" using True by simp
    have "fst ` set (r2_skipped_keys st) - {int j}
        = {i. 1 \<le> i \<and> i \<le> r2_step st} - int ` insert j D"
      unfolding keys by auto
    then show ?thesis
      unfolding d m using oc1 k1 dn True by simp
  next
    case False
    then have w: "r2_step st < int j" by simp
    let ?new = "map (\<lambda>i. (int i, message_key_at env k i)) [Suc ?n..<j]"
    let ?st1 = "st\<lparr>r2_chain_key := chain_key_at env k j, r2_step := int j,
                   r2_skipped_keys := r2_skipped_keys st @ ?new\<rparr>"
    have d: "QuantumDoubleRatchetReceiver_decrypt env st pkg = (Inr m, refresh_lookup_cache env ?st1)"
      by (rule v2_decrypt_ahead [OF oc bd w j(3) h])
    have old: "\<forall>i \<in> fst ` set (r2_skipped_keys st). 1 \<le> i \<and> i \<le> r2_step st"
      using ent by fastforce
    have newk: "fst ` set ?new = {i. r2_step st < i \<and> i < int j}"
    proof (rule set_eqI)
      fix i :: int
      show "i \<in> fst ` set ?new \<longleftrightarrow> i \<in> {i. r2_step st < i \<and> i < int j}"
      proof
        assume "i \<in> fst ` set ?new"
        then obtain a where "a \<in> {Suc ?n..<j}" "i = int a" by auto
        then show "i \<in> {i. r2_step st < i \<and> i < int j}" using s0 by auto
      next
        assume "i \<in> {i. r2_step st < i \<and> i < int j}"
        then have "nat i \<in> {Suc ?n..<j}" "i = int (nat i)" using s0 by auto
        then show "i \<in> fst ` set ?new" by force
      qed
    qed
    have dnew: "distinct (map fst ?new)"
      by (simp add: comp_def distinct_map inj_on_def)
    have disj: "set (map fst (r2_skipped_keys st)) \<inter> set (map fst ?new) = {}"
      using old newk by (simp only: set_map) fastforce
    have oc1: "r2_on_chain env k (refresh_lookup_cache env ?st1)"
    proof (rule on_chain_refresh)
      show "0 \<le> r2_step ?st1" by simp
      show "r2_chain_key ?st1 = chain_key_at env k (nat (r2_step ?st1))" by simp
      show "distinct (map fst (r2_skipped_keys ?st1))"
      proof -
        have "r2_skipped_keys ?st1 = r2_skipped_keys st @ ?new" by simp
        moreover have "distinct (map fst (r2_skipped_keys st @ ?new))"
          using dk dnew disj by (simp only: map_append distinct_append)
        ultimately show ?thesis by (simp only:)
      qed
      show "\<forall>(i, key) \<in> set (r2_skipped_keys ?st1).
           1 \<le> i \<and> i \<le> r2_step ?st1 \<and> key = message_key_at env k (nat i)"
        using ent w by auto
    qed
    have m: "max (r2_step st) (int j) = int j" using w by simp
    have "fst ` set (r2_skipped_keys st @ ?new)
        = ({i. 1 \<le> i \<and> i \<le> r2_step st} - int ` D) \<union> {i. r2_step st < i \<and> i < int j}"
      using keys newk by (simp only: set_append image_Un)
    also have "\<dots> = {i. 1 \<le> i \<and> i \<le> int j} - int ` insert j D"
      using dn w s0 by auto
    finally have k1: "fst ` set (r2_skipped_keys st @ ?new)
        = {i. 1 \<le> i \<and> i \<le> int j} - int ` insert j D" .
    have dn1: "\<forall>d \<in> insert j D. int d \<le> int j" using dn w by auto
    show ?thesis
      unfolding d m using oc1 k1 dn1 by simp
  qed
qed

lemma v2_recv_all_round_trip:
  fixes env :: "'w lib"
  assumes bd: "beacons_distinct env k N"
    and hon: "\<forall>j \<in> set js. honest_v2 env k j (m j) (pk j)"
  shows "r2_on_chain env k st \<Longrightarrow>
         fst ` set (r2_skipped_keys st) = {i. 1 \<le> i \<and> i \<le> r2_step st} - int ` D \<Longrightarrow>
         \<forall>d \<in> D. int d \<le> r2_step st \<Longrightarrow>
         nat (r2_step st) + MAX_SKIP \<le> N \<Longrightarrow>
         distinct js \<Longrightarrow> \<forall>j \<in> set js. 1 \<le> j \<and> j \<notin> D \<and> j + MAX_SKIP \<le> N \<Longrightarrow>
         in_window (r2_step st) js \<Longrightarrow>
         fst (v2_recv_all env st (map pk js)) = map (\<lambda>j. Inr (m j)) js"
  using hon
proof (induction js arbitrary: st D)
  case Nil
  show ?case by simp
next
  case (Cons j js)
  let ?r = "QuantumDoubleRatchetReceiver_decrypt env st (pk j)"
  have bd1: "beacons_distinct env k (nat (r2_step st) + MAX_SKIP)"
    by (rule beacons_distinct_mono [OF bd Cons.prems(4)])
  have j: "1 \<le> j" "j \<notin> D" "j + MAX_SKIP \<le> N" using Cons.prems(6) by simp_all
  have win: "int j \<le> r2_step st + int MAX_SKIP" "in_window (max (r2_step st) (int j)) js"
    using Cons.prems(7) by simp_all
  have h: "honest_v2 env k j (m j) (pk j)" using Cons.prems(8) by simp
  from v2_decrypt_step [OF Cons.prems(1) bd1 Cons.prems(2) Cons.prems(3) j(1) j(2) win(1) h]
  have r: "fst ?r = Inr (m j)" and oc1: "r2_on_chain env k (snd ?r)"
    and s1: "r2_step (snd ?r) = max (r2_step st) (int j)"
    and k1: "fst ` set (r2_skipped_keys (snd ?r))
           = {i. 1 \<le> i \<and> i \<le> r2_step (snd ?r)} - int ` insert j D"
    and d1: "\<forall>d \<in> insert j D. int d \<le> r2_step (snd ?r)"
    by simp_all
  have n1: "nat (r2_step (snd ?r)) + MAX_SKIP \<le> N"
    unfolding s1 using Cons.prems(4) j(3) by (cases "r2_step st \<le> int j") (simp_all add: max_def)
  have dj: "distinct js" using Cons.prems(5) by simp
  have rest: "\<forall>i \<in> set js. 1 \<le> i \<and> i \<notin> insert j D \<and> i + MAX_SKIP \<le> N"
    using Cons.prems(5,6) by auto
  have w1: "in_window (r2_step (snd ?r)) js" unfolding s1 by (rule win(2))
  have hon1: "\<forall>i \<in> set js. honest_v2 env k i (m i) (pk i)" using Cons.prems(8) by simp
  from Cons.IH [OF oc1 k1 d1 n1 dj rest w1 hon1]
  have "fst (v2_recv_all env (snd ?r) (map pk js)) = map (\<lambda>j. Inr (m j)) js" .
  then show ?case using r by (simp add: split_beta)
qed

lemma in_window_bounded:
  "\<forall>j \<in> set js. int j \<le> s + int MAX_SKIP \<Longrightarrow> in_window s js"
proof (induction js arbitrary: s)
  case Nil
  show ?case by simp
next
  case (Cons j js)
  have "\<forall>i \<in> set js. int i \<le> max s (int j) + int MAX_SKIP" using Cons.prems by auto
  from Cons.IH [OF this] Cons.prems show ?case by simp
qed

lemma in_window_upt: "in_window (int a) (map Suc [a..<c])"
proof (induction "c - a" arbitrary: a)
  case 0
  then show ?case by simp
next
  case (Suc d)
  then have lt: "a < c" and d: "d = c - Suc a" by simp_all
  have "[a..<c] = a # [Suc a..<c]" using lt by (simp add: upt_conv_Cons)
  moreover have "max (int a) (int (Suc a)) = int (Suc a)" by simp
  ultimately show ?case using Suc.hyps(1) [OF d] by (simp add: MAX_SKIP_def)
qed

lemma v2_round_trip_order:
  fixes env :: "'w lib"
  assumes hk: "hkdf_len env" and ur: "urandom_len env" and gc: "gcm_correct env"
    and hp: "header_parses env"
    and bd: "beacons_distinct env k N" and n: "length ms + MAX_SKIP \<le> N"
    and sends: "fst (v2_send_all env (QuantumDoubleRatchet_init k sender_id) w ms) = map Inr pkts"
    and d: "distinct order" and sub: "set order \<subseteq> {..<length ms}"
    and win: "in_window 0 (map Suc order)"
  shows "fst (v2_recv_all env (QuantumDoubleRatchetReceiver_init env k) (map (\<lambda>i. pkts ! i) order))
           = map (\<lambda>i. Inr (ms ! i)) order"
proof -
  let ?R = "QuantumDoubleRatchetReceiver_init env k"
  have ck: "s2_chain_key (QuantumDoubleRatchet_init k sender_id) = chain_key_at env k 0"
    by (simp add: QuantumDoubleRatchet_init_def)
  from v2_send_all_honest [OF hk ur gc hp ck sends]
  have hon: "\<forall>i < length ms. honest_v2 env k (i + 1) (ms ! i) (pkts ! i)" by simp
  have hon': "\<forall>j \<in> set (map Suc order). honest_v2 env k j (ms ! (j - 1)) (pkts ! (j - 1))"
    using hon sub by auto
  have "fst (v2_recv_all env ?R (map (\<lambda>j. pkts ! (j - 1)) (map Suc order)))
      = map (\<lambda>j. Inr (ms ! (j - 1))) (map Suc order)"
  proof (rule v2_recv_all_round_trip [OF bd hon', where D = "{}"])
    show "r2_on_chain env k ?R" by (rule r2_on_chain_init)
    show "fst ` set (r2_skipped_keys ?R) = {i. 1 \<le> i \<and> i \<le> r2_step ?R} - int ` {}" by simp
    show "\<forall>d \<in> {}. int d \<le> r2_step ?R" by simp
    show "nat (r2_step ?R) + MAX_SKIP \<le> N" using n by simp
    show "distinct (map Suc order)" using d by (simp add: distinct_map)
    show "\<forall>j \<in> set (map Suc order). 1 \<le> j \<and> j \<notin> {} \<and> j + MAX_SKIP \<le> N"
      using sub n by auto
    show "in_window (r2_step ?R) (map Suc order)" using win by simp
  qed
  then show ?thesis by (simp add: comp_def)
qed

text \<open>
  C2. The zero-metadata sender of the secret \<open>k\<close> encrypts the messages \<open>ms\<close>, at most
  \<open>MAX_SKIP\<close> of them, in order, and every call returns a package. The receiver of \<open>k\<close>
  is given these packages in the order \<open>order\<close>, a list of positions without repetition
  (a permutation of all positions is one). Then every decrypt call returns the plaintext
  of its package. What is assumed of the library: HKDF, \<open>os.urandom\<close> and AES-GCM return
  outputs of the lengths asked for, AES-GCM decrypts what it encrypted, the header the
  sender writes parses, and the beacons of the first \<open>2 * MAX_SKIP\<close> steps of the chain
  are pairwise different.
\<close>

theorem out_of_order_round_trip:
  fixes env :: "'w lib"
  assumes "hkdf_len env" and "urandom_len env" and "gcm_correct env" and "header_parses env"
    and "beacons_distinct env k (2 * MAX_SKIP)"
    and "length ms \<le> MAX_SKIP"
    and "fst (v2_send_all env (QuantumDoubleRatchet_init k sender_id) w ms) = map Inr pkts"
    and "distinct order" and "set order \<subseteq> {..<length ms}"
  shows "fst (v2_recv_all env (QuantumDoubleRatchetReceiver_init env k) (map (\<lambda>i. pkts ! i) order))
           = map (\<lambda>i. Inr (ms ! i)) order"
proof (rule v2_round_trip_order [OF assms(1-4) assms(5) _ assms(7) assms(8) assms(9)])
  show "length ms + MAX_SKIP \<le> 2 * MAX_SKIP" using assms(6) by simp
  show "in_window 0 (map Suc order)"
  proof (rule in_window_bounded)
    show "\<forall>j \<in> set (map Suc order). int j \<le> 0 + int MAX_SKIP"
      using assms(6) assms(9) by auto
  qed
qed

lemma v2_send_all_Cons:
  "fst (v2_send_all env st w (m # ms)) =
     fst (QuantumDoubleRatchet_encrypt env st m w) #
     fst (v2_send_all env (fst (snd (QuantumDoubleRatchet_encrypt env st m w)))
            (snd (snd (QuantumDoubleRatchet_encrypt env st m w))) ms)"
  by (simp add: split_beta)

lemma toy_header_lengths:
  "length (fst (json_header toy (u ''User'') 2 w)) = 46"
  "length (fst (json_header toy (u ''User'') 3 w)) = 46"
  "length (fst (json_header toy (u ''User'') 1 w)) = 46"
  by (simp_all add: toy_json_header_def b_def u_def toy_digits.simps)

lemma toy_encrypt_ok:
  assumes "s2_sender_id st = u ''User''" and "s2_step st + 1 \<in> {1, 2, 3}" and "length m \<le> 400"
  shows "\<exists>p. fst (QuantumDoubleRatchet_encrypt toy st m w) = Inr p"
proof -
  have "length (fst (json_header toy (s2_sender_id st) (s2_step st + 1) w)) = 46"
    using assms(1,2) toy_header_lengths [of w] by auto
  then have "8 + length (fst (json_header toy (s2_sender_id st) (s2_step st + 1) w)) + length m
      \<le> FIXED_PAYLOAD_SIZE"
    using assms(3) by (simp add: FIXED_PAYLOAD_SIZE_def)
  from v2_encrypt_fits [OF hkdf_len_toy urandom_len_toy gcm_correct_toy gcm_len_toy this]
  show ?thesis by blast
qed

lemma toy_send_three:
  assumes "length m1 \<le> 400" and "length m2 \<le> 400" and "length m3 \<le> 400"
  shows "\<exists>pkts. fst (v2_send_all toy (QuantumDoubleRatchet_init zeros32 (u ''User'')) () [m1, m2, m3])
           = map Inr pkts"
proof -
  let ?s0 = "QuantumDoubleRatchet_init zeros32 (u ''User'')"
  let ?e1 = "QuantumDoubleRatchet_encrypt toy ?s0 m1 ()"
  let ?e2 = "QuantumDoubleRatchet_encrypt toy (fst (snd ?e1)) m2 (snd (snd ?e1))"
  let ?e3 = "QuantumDoubleRatchet_encrypt toy (fst (snd ?e2)) m3 (snd (snd ?e2))"
  have i0: "s2_sender_id ?s0 = u ''User''" "s2_step ?s0 = 0"
    by (simp_all add: QuantumDoubleRatchet_init_def)
  have i1: "s2_sender_id (fst (snd ?e1)) = u ''User''" "s2_step (fst (snd ?e1)) = 1"
    using v2_encrypt_state [of toy ?s0 m1 "()"] i0 by simp_all
  have i2: "s2_sender_id (fst (snd ?e2)) = u ''User''" "s2_step (fst (snd ?e2)) = 2"
    using v2_encrypt_state [of toy "fst (snd ?e1)" m2 "snd (snd ?e1)"] i1 by simp_all
  obtain p1 where p1: "fst ?e1 = Inr p1"
    using toy_encrypt_ok [of ?s0 m1 "()"] i0 assms(1) by auto
  obtain p2 where p2: "fst ?e2 = Inr p2"
    using toy_encrypt_ok [of "fst (snd ?e1)" m2 "snd (snd ?e1)"] i1 assms(2) by auto
  obtain p3 where p3: "fst ?e3 = Inr p3"
    using toy_encrypt_ok [of "fst (snd ?e2)" m3 "snd (snd ?e2)"] i2 assms(3) by auto
  have "fst (v2_send_all toy ?s0 () [m1, m2, m3]) = map Inr [p1, p2, p3]"
    by (simp only: v2_send_all_Cons p1 p2 p3) simp
  then show ?thesis by blast
qed

theorem out_of_order_round_trip_witness:
  "hkdf_len toy \<and> urandom_len toy \<and> gcm_correct toy \<and> header_parses toy \<and>
   beacons_distinct toy zeros32 (2 * MAX_SKIP) \<and>
   length [b ''one'', b ''two'', b ''three''] \<le> MAX_SKIP \<and>
   distinct [2, 0, 1 :: nat] \<and> set [2, 0, 1] \<subseteq> {..<length [b ''one'', b ''two'', b ''three'']} \<and>
   (\<exists>pkts.
      fst (v2_send_all toy (QuantumDoubleRatchet_init zeros32 (u ''User'')) ()
             [b ''one'', b ''two'', b ''three'']) = map Inr pkts \<and>
      fst (v2_recv_all toy (QuantumDoubleRatchetReceiver_init toy zeros32)
             [pkts ! 2, pkts ! 0, pkts ! 1])
        = [Inr (b ''three''), Inr (b ''one''), Inr (b ''two'')])"
proof -
  let ?ms = "[b ''one'', b ''two'', b ''three'']"
  have bd: "beacons_distinct toy zeros32 (2 * MAX_SKIP)"
    using beacons_distinct_toy by (simp add: MAX_SKIP_def)
  have l: "length ?ms \<le> MAX_SKIP" by (simp add: MAX_SKIP_def)
  have d: "distinct [2, 0, 1 :: nat]" by simp
  have s: "set [2, 0, 1] \<subseteq> {..<length ?ms}" by simp
  obtain pkts where
    p: "fst (v2_send_all toy (QuantumDoubleRatchet_init zeros32 (u ''User'')) () ?ms) = map Inr pkts"
    using toy_send_three [of "b ''one''" "b ''two''" "b ''three''"] by (auto simp: b_def)
  from out_of_order_round_trip [OF hkdf_len_toy urandom_len_toy gcm_correct_toy header_parses_toy
      bd l p d s]
  have "fst (v2_recv_all toy (QuantumDoubleRatchetReceiver_init toy zeros32)
             [pkts ! 2, pkts ! 0, pkts ! 1])
        = [Inr (b ''three''), Inr (b ''one''), Inr (b ''two'')]"
    by simp
  with p have "\<exists>pkts.
      fst (v2_send_all toy (QuantumDoubleRatchet_init zeros32 (u ''User'')) () ?ms) = map Inr pkts \<and>
      fst (v2_recv_all toy (QuantumDoubleRatchetReceiver_init toy zeros32)
             [pkts ! 2, pkts ! 0, pkts ! 1])
        = [Inr (b ''three''), Inr (b ''one''), Inr (b ''two'')]"
    by blast
  with hkdf_len_toy urandom_len_toy gcm_correct_toy header_parses_toy bd l d s
  show ?thesis by blast
qed

end
